theory Spec2Isabelle
  imports Complex_Main "HOL-Library.AList"
begin

section \<open>Python values, dictionaries and exceptions\<close>

text \<open>
  The schema utilities of \<^verbatim>\<open>dlt/common/schema/utils.py\<close> work on untyped nested
  dictionaries (\<^verbatim>\<open>DictStrAny\<close>) and on runtime values of any type. A value is a
  tree; a dictionary is an association list in insertion order whose keys are strings,
  as every dictionary of a schema document is. Finite floats and decimals are
  represented by the rational number they denote.
\<close>

datatype pynum = Fin rat | PosInf | NegInf | NaN

datatype pyval =
    PNone
  | PBool bool
  | PInt int
  | PFloat pynum
  | PDecimal pynum
  | PStr string
  | PBytes string
  | PList "pyval list"
  | PDict "(string \<times> pyval) list"

type_synonym pydict = "(string \<times> pyval) list"

datatype pyerr =
    KeyError string
  | AttributeError
  | TypeError
  | ValueError pyval
  | InvalidOperation
  | OverflowError
  | ConversionSyntax
  | BinasciiError
  | SchemaEngineNoUpgradePathException pyval pyval int int

text \<open>\<^verbatim>\<open>d[k]\<close>, \<^verbatim>\<open>d.get(k)\<close> is \<^const>\<open>map_of\<close>, \<^verbatim>\<open>d[k] = v\<close> is
  \<^const>\<open>AList.update\<close> (an existing key keeps its position, a new one goes last).\<close>

definition dict_getitem :: "pydict \<Rightarrow> string \<Rightarrow> pyerr + pyval" where
  "dict_getitem d k = (case map_of d k of None \<Rightarrow> Inl (KeyError k) | Some v \<Rightarrow> Inr v)"

definition dict_delitem :: "string \<Rightarrow> pydict \<Rightarrow> pyerr + pydict" where
  "dict_delitem k d = (case map_of d k of None \<Rightarrow> Inl (KeyError k) | Some v \<Rightarrow> Inr (AList.delete k d))"

definition dict_pop :: "string \<Rightarrow> pydict \<Rightarrow> pyerr + (pyval \<times> pydict)" where
  "dict_pop k d = (case map_of d k of None \<Rightarrow> Inl (KeyError k) | Some v \<Rightarrow> Inr (v, AList.delete k d))"

definition dict_pop_default :: "string \<Rightarrow> pyval \<Rightarrow> pydict \<Rightarrow> pyval \<times> pydict" where
  "dict_pop_default k dflt d = (case map_of d k of None \<Rightarrow> (dflt, d) | Some v \<Rightarrow> (v, AList.delete k d))"

section \<open>Strings\<close>

text \<open>\<^verbatim>\<open>s.find(sub)\<close> and \<^verbatim>\<open>s.rfind(sub)\<close>: the lowest, respectively highest, index at
  which \<open>sub\<close> occurs in \<open>s\<close>, and \<open>-1\<close> when it does not occur.\<close>

definition occurs_at :: "string \<Rightarrow> string \<Rightarrow> nat \<Rightarrow> bool" where
  "occurs_at sub s i = (take (length sub) (drop i s) = sub)"

definition str_find :: "string \<Rightarrow> string \<Rightarrow> int" where
  "str_find s sub =
     (case filter (occurs_at sub s) [0..<Suc (length s) - length sub] of
        [] \<Rightarrow> -1 | i # _ \<Rightarrow> int i)"

definition str_rfind :: "string \<Rightarrow> string \<Rightarrow> int" where
  "str_rfind s sub =
     (case filter (occurs_at sub s) (rev [0..<Suc (length s) - length sub]) of
        [] \<Rightarrow> -1 | i # _ \<Rightarrow> int i)"

text \<open>Slices \<^verbatim>\<open>s[a:b]\<close>, \<^verbatim>\<open>s[a:]\<close> and \<^verbatim>\<open>s[:b]\<close>: a negative bound counts from the end,
  and every bound is clamped to the string.\<close>

definition slice_bound :: "nat \<Rightarrow> int \<Rightarrow> nat" where
  "slice_bound n i = (if i < 0 then nat (max 0 (i + int n)) else min (nat i) n)"

definition py_slice :: "string \<Rightarrow> int \<Rightarrow> int \<Rightarrow> string" where
  "py_slice s a b =
     (let lo = slice_bound (length s) a; hi = slice_bound (length s) b
      in take (hi - lo) (drop lo s))"

definition py_slice_from :: "string \<Rightarrow> int \<Rightarrow> string" where
  "py_slice_from s a = drop (slice_bound (length s) a) s"

definition py_slice_to :: "string \<Rightarrow> int \<Rightarrow> string" where
  "py_slice_to s b = take (slice_bound (length s) b) s"

section \<open>Schema names\<close>

text \<open>The two regular expressions \<^verbatim>\<open>^\d+\<close> and \<^verbatim>\<open>[^a-zA-Z\d]\<close>, on the characters
  of the ASCII range (beyond it \<^verbatim>\<open>\d\<close> also accepts the decimal digits of other scripts).\<close>

definition is_digit :: "char \<Rightarrow> bool" where
  "is_digit c = (c \<in> set ''0123456789'')"

definition is_lower :: "char \<Rightarrow> bool" where
  "is_lower c = (c \<in> set ''abcdefghijklmnopqrstuvwxyz'')"

definition is_upper :: "char \<Rightarrow> bool" where
  "is_upper c = (c \<in> set ''ABCDEFGHIJKLMNOPQRSTUVWXYZ'')"

definition is_alphanumeric :: "char \<Rightarrow> bool" where
  "is_alphanumeric c = (is_lower c \<or> is_upper c \<or> is_digit c)"

definition char_lower :: "char \<Rightarrow> char" where
  "char_lower c =
     (case map_of (zip ''ABCDEFGHIJKLMNOPQRSTUVWXYZ'' ''abcdefghijklmnopqrstuvwxyz'') c of
        None \<Rightarrow> c | Some l \<Rightarrow> l)"

definition str_lower :: "string \<Rightarrow> string" where
  "str_lower s = map char_lower s"

definition RE_LEADING_DIGITS_match :: "string \<Rightarrow> bool" where
  "RE_LEADING_DIGITS_match name = (case name of [] \<Rightarrow> False | c # _ \<Rightarrow> is_digit c)"

definition RE_NON_ALPHANUMERIC_sub :: "string \<Rightarrow> string" where
  "RE_NON_ALPHANUMERIC_sub name = filter is_alphanumeric name"

definition normalize_schema_name :: "string \<Rightarrow> string" where
  "normalize_schema_name name =
     (let name' = (if RE_LEADING_DIGITS_match name then ''s'' @ name else name)
      in str_lower (RE_NON_ALPHANUMERIC_sub name'))"

section \<open>Column hints\<close>

text \<open>\<^verbatim>\<open>add_missing_hints\<close>: the dictionary display \<^verbatim>\<open>{**defaults, **column}\<close> starts from
  the six default hints and stores every item of the column over them, in order.\<close>

definition default_hints :: pydict where
  "default_hints =
     [(''partition'', PBool False), (''cluster'', PBool False), (''unique'', PBool False),
      (''sort'', PBool False), (''primary_key'', PBool False), (''foreign_key'', PBool False)]"

definition add_missing_hints :: "pydict \<Rightarrow> pydict" where
  "add_missing_hints column = foldl (\<lambda>d (k, v). AList.update k v d) default_hints column"

text \<open>\<^verbatim>\<open>copy.deepcopy\<close> builds a new object graph equal to its argument that shares no
  mutable object with it. Values here are trees without identity, so the copy has the
  value of the original; that it is another object shows in what the later statements
  change: they work on the local \<open>clean_tables\<close>, and the object that was copied, which
  \<open>remove_defaults\<close> returns as a component of its outcome, is out of their reach.\<close>

definition deepcopy :: "pyval \<Rightarrow> pyval" where
  "deepcopy v = v"

text \<open>\<^verbatim>\<open>for v in d.values(): ...\<close> where the body mutates the object \<open>v\<close> in place or raises.\<close>

fun dict_map_values :: "(pyval \<Rightarrow> pyerr + pyval) \<Rightarrow> pydict \<Rightarrow> pyerr + pydict" where
  "dict_map_values f [] = Inr []"
| "dict_map_values f ((k, v) # kvs) =
     (case f v of
        Inl e \<Rightarrow> Inl e
      | Inr v' \<Rightarrow>
          (case dict_map_values f kvs of
             Inl e \<Rightarrow> Inl e
           | Inr kvs' \<Rightarrow> Inr ((k, v') # kvs')))"

text \<open>The body of the innermost loop of \<^verbatim>\<open>remove_defaults\<close>, for one key \<open>h\<close> of the
  snapshot \<^verbatim>\<open>list(c.keys())\<close>.\<close>

definition remove_default_hint :: "pydict \<Rightarrow> string \<Rightarrow> pydict" where
  "remove_default_hint c h =
     (if map_of c h = Some (PBool False) \<and> h \<noteq> ''nullable'' then AList.delete h c else c)"

text \<open>The body of the loop over the columns: \<^verbatim>\<open>del c["name"]\<close>, then the loop over the
  keys that are left.\<close>

definition clean_column :: "pyval \<Rightarrow> pyerr + pyval" where
  "clean_column cv =
     (case cv of
        PDict c \<Rightarrow>
          (case dict_delitem ''name'' c of
             Inl e \<Rightarrow> Inl e
           | Inr c1 \<Rightarrow> Inr (PDict (foldl remove_default_hint c1 (map fst c1))))
      | _ \<Rightarrow> Inl TypeError)"

text \<open>The body of the loop over the tables: \<^verbatim>\<open>del t["name"]\<close>, then the columns.\<close>

definition clean_table :: "pyval \<Rightarrow> pyerr + pyval" where
  "clean_table tv =
     (case tv of
        PDict t \<Rightarrow>
          (case dict_delitem ''name'' t of
             Inl e \<Rightarrow> Inl e
           | Inr t1 \<Rightarrow>
               (case dict_getitem t1 ''columns'' of
                  Inl e \<Rightarrow> Inl e
                | Inr (PDict columns) \<Rightarrow>
                    (case dict_map_values clean_column columns of
                       Inl e \<Rightarrow> Inl e
                     | Inr columns' \<Rightarrow> Inr (PDict (AList.update ''columns'' (PDict columns') t1)))
                | Inr _ \<Rightarrow> Inl AttributeError))
      | _ \<Rightarrow> Inl TypeError)"

text \<open>
  The outcome of \<^verbatim>\<open>remove_defaults\<close>, as its caller can observe it: the state of the
  dictionary \<open>stored_schema\<close> when the call ends; the state of the object that
  \<^verbatim>\<open>stored_schema["tables"]\<close> referred to when the call began, with the tables and
  columns nested in it (\<open>None\<close> when the key is missing), since the caller may hold a
  reference to it; and the exception raised or the value returned.
\<close>

record outcome =
  schema_after :: pydict
  tables_after :: "pyval option"
  returned :: "pyerr + pyval"

text \<open>\<^verbatim>\<open>remove_defaults\<close>. The loops change the copy \<open>clean_tables\<close> only; the last
  statement stores the copy in \<open>stored_schema\<close>. The function has no \<^verbatim>\<open>return\<close>
  statement: it returns \<^verbatim>\<open>None\<close>.\<close>

definition remove_defaults :: "pydict \<Rightarrow> outcome" where
  "remove_defaults stored_schema =
     (case dict_getitem stored_schema ''tables'' of
        Inl e \<Rightarrow> \<lparr>schema_after = stored_schema, tables_after = None, returned = Inl e\<rparr>
      | Inr tables \<Rightarrow>
          (case deepcopy tables of
             PDict clean_tables \<Rightarrow>
               (case dict_map_values clean_table clean_tables of
                  Inl e \<Rightarrow>
                    \<lparr>schema_after = stored_schema, tables_after = Some tables, returned = Inl e\<rparr>
                | Inr clean_tables' \<Rightarrow>
                    \<lparr>schema_after = AList.update ''tables'' (PDict clean_tables') stored_schema,
                     tables_after = Some tables, returned = Inr PNone\<rparr>)
           | _ \<Rightarrow>
               \<lparr>schema_after = stored_schema, tables_after = Some tables,
                returned = Inl AttributeError\<rparr>))"

text \<open>What the loop over the hints amounts to: an item is kept unless its value is
  \<^verbatim>\<open>False\<close> and its key is not \<open>nullable\<close>.\<close>

definition keeps :: "string \<times> pyval \<Rightarrow> bool" where
  "keeps kv = (\<not> (snd kv = PBool False \<and> fst kv \<noteq> ''nullable''))"

definition hint_names :: "string list" where
  "hint_names = map fst default_hints"

text \<open>A working column: a dictionary that carries \<open>name\<close>, \<open>data_type\<close>, \<open>nullable\<close> and
  the six hint flags.\<close>

definition working_column :: "pydict \<Rightarrow> bool" where
  "working_column w =
     (distinct (map fst w) \<and>
      list_all (\<lambda>k. map_of w k \<noteq> None)
        (''name'' # ''data_type'' # ''nullable'' # hint_names))"

text \<open>The stored form that the specification gives a column, a table and the tables of
  a schema: a column without its name and without the entries that hold \<^verbatim>\<open>False\<close>, but
  for \<open>nullable\<close>; a table without its name, its columns in stored form.\<close>

definition stored_column :: "pydict \<Rightarrow> pydict" where
  "stored_column c = filter (\<lambda>kv. fst kv \<noteq> ''name'' \<and> keeps kv) c"

definition stored_column_value :: "pyval \<Rightarrow> pyval" where
  "stored_column_value cv = (case cv of PDict c \<Rightarrow> PDict (stored_column c) | _ \<Rightarrow> cv)"

definition stored_columns_value :: "pyval \<Rightarrow> pyval" where
  "stored_columns_value v =
     (case v of
        PDict columns \<Rightarrow> PDict (map (\<lambda>kv. (fst kv, stored_column_value (snd kv))) columns)
      | _ \<Rightarrow> v)"

definition stored_table :: "pydict \<Rightarrow> pydict" where
  "stored_table t =
     map (\<lambda>kv. if fst kv = ''columns'' then (fst kv, stored_columns_value (snd kv)) else kv)
       (filter (\<lambda>kv. fst kv \<noteq> ''name'') t)"

definition stored_table_value :: "pyval \<Rightarrow> pyval" where
  "stored_table_value tv = (case tv of PDict t \<Rightarrow> PDict (stored_table t) | _ \<Rightarrow> tv)"

definition stored_tables :: "pydict \<Rightarrow> pydict" where
  "stored_tables tables = map (\<lambda>kv. (fst kv, stored_table_value (snd kv))) tables"

text \<open>A schema document in working form, on which \<^verbatim>\<open>remove_defaults\<close> is called: its
  tables are dictionaries with a name and a dictionary of columns, its columns are
  dictionaries with a name. A dictionary has each key once.\<close>

definition column_ready :: "pyval \<Rightarrow> bool" where
  "column_ready cv =
     (case cv of PDict c \<Rightarrow> distinct (map fst c) \<and> map_of c ''name'' \<noteq> None | _ \<Rightarrow> False)"

definition table_ready :: "pyval \<Rightarrow> bool" where
  "table_ready tv =
     (case tv of
        PDict t \<Rightarrow>
          distinct (map fst t) \<and> map_of t ''name'' \<noteq> None \<and>
          (case map_of t ''columns'' of
             Some (PDict columns) \<Rightarrow> list_all (\<lambda>kv. column_ready (snd kv)) columns
           | _ \<Rightarrow> False)
      | _ \<Rightarrow> False)"

definition schema_ready :: "pydict \<Rightarrow> bool" where
  "schema_ready stored_schema =
     (case map_of stored_schema ''tables'' of
        Some (PDict tables) \<Rightarrow> list_all (\<lambda>kv. table_ready (snd kv)) tables
      | _ \<Rightarrow> False)"

text \<open>The column \<open>c\<close> is the one that the schema document \<open>d\<close> holds under the column
  name \<open>cn\<close> of its table \<open>tn\<close>.\<close>

definition column_in :: "pydict \<Rightarrow> string \<Rightarrow> string \<Rightarrow> pydict \<Rightarrow> bool" where
  "column_in d tn cn c =
     (case map_of d ''tables'' of
        Some (PDict tables) \<Rightarrow>
          (case map_of tables tn of
             Some (PDict t) \<Rightarrow>
               (case map_of t ''columns'' of
                  Some (PDict columns) \<Rightarrow> map_of columns cn = Some (PDict c)
                | _ \<Rightarrow> False)
           | _ \<Rightarrow> False)
      | _ \<Rightarrow> False)"

section \<open>Tables\<close>

text \<open>\<^verbatim>\<open>new_table(table_name, parent_name)\<close>, without the optional \<open>columns\<close> argument,
  which no call in this module passes. \<^verbatim>\<open>if parent_name:\<close> is false for \<^verbatim>\<open>None\<close> and for
  the empty string.\<close>

definition new_table :: "string \<Rightarrow> string option \<Rightarrow> pydict" where
  "new_table table_name parent_name =
     (let table = [(''name'', PStr table_name), (''columns'', PDict [])]
      in case parent_name of
           None \<Rightarrow> AList.update ''write_disposition'' (PStr ''append'') table
         | Some p \<Rightarrow>
             if p \<noteq> [] then AList.update ''parent'' (PStr p) table
             else AList.update ''write_disposition'' (PStr ''append'') table)"

section \<open>Engine upgrades\<close>

definition default_normalizers :: pyval where
  "default_normalizers =
     PDict [(''names'', PStr ''dlt.common.normalizers.names.snake_case''),
            (''json'', PDict
               [(''module'', PStr ''dlt.common.normalizers.json.relational''),
                (''config'', PDict
                   [(''propagation'', PDict
                       [(''root'', PDict [(''_record_hash'', PStr ''_root_hash'')])])])])]"

text \<open>Engine 1 to 2.\<close>

definition upgrade_1_2 :: "pydict \<Rightarrow> pydict" where
  "upgrade_1_2 schema_dict =
     AList.update ''excludes'' (PList [])
       (AList.update ''includes'' (PList [])
          (AList.update ''engine_version'' (PInt 2) schema_dict))"

text \<open>The \<^verbatim>\<open>while True\<close> loop that looks for the parent of a legacy table: \<open>parent\<close> is
  the loop variable, the result is its value after the loop.\<close>

function find_parent :: "pydict \<Rightarrow> string \<Rightarrow> string option" where
  "find_parent old_tables parent =
     (let idx = str_rfind parent ''__''
      in if idx > 0 then
           (let parent' = py_slice_to parent idx
            in if map_of old_tables parent' = None then find_parent old_tables parent'
               else Some parent')
         else None)"
  by pat_completeness auto
termination
proof (relation "measure (\<lambda>(old_tables, parent). length parent)")
  show "wf (measure (\<lambda>(old_tables :: pydict, parent :: string). length parent))"
    by simp
next
  fix old_tables :: pydict and parent :: string and idx :: int and parent' :: string
  assume idx: "idx = str_rfind parent ''__''" and pos: "0 < idx"
    and p': "parent' = py_slice_to parent idx"
  let ?cands = "filter (occurs_at ''__'' parent) (rev [0..<Suc (length parent) - length ''__''])"
  from idx pos obtain i rest where c: "?cands = i # rest" and i: "idx = int i"
    by (auto simp: str_rfind_def split: list.splits)
  have "i \<in> set ?cands" using c by simp
  then have "i < length parent" by auto
  then have "length parent' < length parent"
    using p' i by (simp add: py_slice_to_def slice_bound_def)
  then show "((old_tables, parent'), (old_tables, parent)) \<in>
      measure (\<lambda>(old_tables, parent). length parent)"
    by simp
qed

declare find_parent.simps [simp del]

text \<open>The loop that repackages the legacy tables: one iteration, and the loop over
  \<^verbatim>\<open>old_tables.items()\<close> with \<open>tables\<close> the dictionary \<^verbatim>\<open>current["tables"]\<close>.\<close>

definition repackage_table :: "pydict \<Rightarrow> pydict \<Rightarrow> string \<times> pyval \<Rightarrow> pydict" where
  "repackage_table old_tables tables item =
     (case item of (name, columns) \<Rightarrow>
        (let parent = find_parent old_tables name;
             nt = AList.update ''columns'' columns (new_table name parent)
         in AList.update name (PDict nt) tables))"

definition repackage_tables :: "pydict \<Rightarrow> pydict" where
  "repackage_tables old_tables = foldl (repackage_table old_tables) [] old_tables"

text \<open>\<^verbatim>\<open>d.setdefault(k, default)\<close>: the value under \<open>k\<close>, after storing the default
  when the key was missing.\<close>

definition dict_setdefault :: "string \<Rightarrow> pyval \<Rightarrow> pydict \<Rightarrow> pyval \<times> pydict" where
  "dict_setdefault k dflt d =
     (case map_of d k of None \<Rightarrow> (dflt, AList.update k dflt d) | Some v \<Rightarrow> (v, d))"

text \<open>One iteration of the loop of \<^verbatim>\<open>migrate_filters\<close> on \<^verbatim>\<open>current["tables"]\<close>. The
  chain \<^verbatim>\<open>t.setdefault("filters", {}).setdefault(group, []).append("^" + path)\<close> changes
  three nested objects in place; it raises only before it has changed any of them. An
  element that is not a string has no \<^verbatim>\<open>find\<close> for a string: \<^verbatim>\<open>TypeError\<close> on bytes,
  \<^verbatim>\<open>AttributeError\<close> on the other values.\<close>

definition migrate_filter :: "string \<Rightarrow> pydict \<Rightarrow> pyval \<Rightarrow> pyerr + pydict" where
  "migrate_filter grp tables fv =
     (case fv of
        PStr f \<Rightarrow>
          (let root = py_slice f 1 (str_find f ''__'');
               path = py_slice_from f (str_find f ''__'' + 2);
               (t, tables1) =
                  (case map_of tables root of
                     None \<Rightarrow> (PDict (new_table root None),
                               AList.update root (PDict (new_table root None)) tables)
                   | Some PNone \<Rightarrow> (PDict (new_table root None),
                               AList.update root (PDict (new_table root None)) tables)
                   | Some t \<Rightarrow> (t, tables))
           in case t of
                PDict td \<Rightarrow>
                  (case dict_setdefault ''filters'' (PDict []) td of
                     (PDict filters, td1) \<Rightarrow>
                       (case dict_setdefault grp (PList []) filters of
                          (PList patterns, filters1) \<Rightarrow>
                            Inr (AList.update root
                                   (PDict (AList.update ''filters''
                                      (PDict (AList.update grp
                                         (PList (patterns @ [PStr (''^'' @ path)])) filters1))
                                      td1))
                                   tables1)
                        | _ \<Rightarrow> Inl AttributeError)
                   | _ \<Rightarrow> Inl AttributeError)
              | _ \<Rightarrow> Inl AttributeError)
      | PBytes _ \<Rightarrow> Inl TypeError
      | _ \<Rightarrow> Inl AttributeError)"

text \<open>\<^verbatim>\<open>migrate_filters(group, filters)\<close> (\<open>grp\<close> is the argument \<open>group\<close>): the state of \<^verbatim>\<open>current["tables"]\<close> when the
  loop ends, and the exception that ended it, if any.\<close>

fun migrate_filters_loop :: "string \<Rightarrow> pydict \<Rightarrow> pyval list \<Rightarrow> pydict \<times> pyerr option" where
  "migrate_filters_loop grp tables [] = (tables, None)"
| "migrate_filters_loop grp tables (f # fs) =
     (case migrate_filter grp tables f of
        Inl e \<Rightarrow> (tables, Some e)
      | Inr tables' \<Rightarrow> migrate_filters_loop grp tables' fs)"

text \<open>What \<^verbatim>\<open>for f in filters\<close> iterates over: the items of a list, the characters of
  a string, the keys of a dictionary; the other values are not iterable.\<close>

definition py_iter :: "pyval \<Rightarrow> pyerr + pyval list" where
  "py_iter v =
     (case v of
        PList xs \<Rightarrow> Inr xs
      | PStr s \<Rightarrow> Inr (map (\<lambda>c. PStr [c]) s)
      | PBytes s \<Rightarrow> Inr (map (\<lambda>c. PInt (of_char c)) s)
      | PDict d \<Rightarrow> Inr (map (\<lambda>kv. PStr (fst kv)) d)
      | _ \<Rightarrow> Inl TypeError)"

definition migrate_filters :: "string \<Rightarrow> pyval \<Rightarrow> pydict \<Rightarrow> pydict \<times> pyerr option" where
  "migrate_filters grp filters tables =
     (case py_iter filters of
        Inl e \<Rightarrow> (tables, Some e)
      | Inr fs \<Rightarrow> migrate_filters_loop grp tables fs)"

text \<open>Engine 2 to 3, up to the assignment of the new engine version. The result is the
  state of \<open>schema_dict\<close> and the exception raised, if any. From the assignment
  \<^verbatim>\<open>current["tables"] = {}\<close> on, the dictionary of the new tables is kept in \<open>tables\<close> and
  stored under its key when the step ends.\<close>

definition set_tables :: "pydict \<Rightarrow> pydict \<Rightarrow> pydict" where
  "set_tables tables schema_dict = AList.update ''tables'' (PDict tables) schema_dict"

definition upgrade_2_3 :: "pydict \<Rightarrow> pydict \<times> pyerr option" where
  "upgrade_2_3 schema_dict =
     (let d1 = AList.update ''normalizers'' default_normalizers schema_dict;
          (hints, d2) = dict_pop_default ''hints'' (PDict []) d1;
          (preferred_types, d3) = dict_pop_default ''preferred_types'' (PDict []) d2;
          d4 = AList.update ''settings''
                 (PDict [(''default_hints'', hints), (''preferred_types'', preferred_types)]) d3
      in case dict_pop ''tables'' d4 of
           Inl e \<Rightarrow> (d4, Some e)
         | Inr (PDict old_tables, d5) \<Rightarrow>
             (let d6 = set_tables [] d5;
                  tables = repackage_tables old_tables;
                  (excludes, d7) = dict_pop_default ''excludes'' (PList []) d6
              in case migrate_filters ''excludes'' excludes tables of
                   (tables1, Some e) \<Rightarrow> (set_tables tables1 d7, Some e)
                 | (tables1, None) \<Rightarrow>
                     (let (includes, d8) = dict_pop_default ''includes'' (PList []) d7
                      in case migrate_filters ''includes'' includes tables1 of
                           (tables2, Some e) \<Rightarrow> (set_tables tables2 d8, Some e)
                         | (tables2, None) \<Rightarrow>
                             (AList.update ''engine_version'' (PInt 3) (set_tables tables2 d8),
                              None)))
         | Inr (_, d5) \<Rightarrow> (set_tables [] d5, Some AttributeError))"

text \<open>The chain of migration steps: the state of \<open>schema_dict\<close> and either the
  exception that a step raised or the value of \<open>from_engine\<close> after the last step.\<close>

definition migration_chain :: "pydict \<Rightarrow> int \<Rightarrow> int \<Rightarrow> pydict \<times> (pyerr + int)" where
  "migration_chain schema_dict from_engine to_engine =
     (let (d1, from1) =
            (if from_engine = 1 \<and> to_engine > 1 then (upgrade_1_2 schema_dict, 2)
             else (schema_dict, from_engine))
      in if from1 = 2 \<and> to_engine > 2 then
           (case upgrade_2_3 d1 of
              (d2, Some e) \<Rightarrow> (d2, Inl e)
            | (d2, None) \<Rightarrow> (d2, Inr 3))
         else (d1, Inr from1))"

text \<open>\<^verbatim>\<open>upgrade_engine_version\<close>: the state of \<open>schema_dict\<close> when the call ends, and the
  exception raised; \<open>None\<close> when the call returns, and then it returns \<open>schema_dict\<close>
  itself.\<close>

definition upgrade_engine_version :: "pydict \<Rightarrow> int \<Rightarrow> int \<Rightarrow> pydict \<times> pyerr option" where
  "upgrade_engine_version schema_dict from_engine to_engine =
     (if from_engine = to_engine then (schema_dict, None)
      else
        (case migration_chain schema_dict from_engine to_engine of
           (d, Inl e) \<Rightarrow> (d, Some e)
         | (d, Inr reached) \<Rightarrow>
             if reached \<noteq> to_engine then
               (case dict_getitem d ''name'' of
                  Inl e \<Rightarrow> (d, Some e)
                | Inr name \<Rightarrow>
                    (case dict_getitem d ''engine_version'' of
                       Inl e \<Rightarrow> (d, Some e)
                     | Inr engine_version \<Rightarrow>
                         (d, Some (SchemaEngineNoUpgradePathException
                                     name engine_version reached to_engine))))
             else (d, None)))"

section \<open>Type coercion\<close>

text \<open>
  \<^verbatim>\<open>coerce_type\<close> calls into the json, base64, decimal, dateutil and pendulum libraries
  and into the parsers of \<^verbatim>\<open>int\<close> and \<^verbatim>\<open>float\<close>. These routines are parameters of the model,
  collected in a record, with the precision \<open>decimal_prec\<close> of the decimal context in
  force during the call (28 unless the caller has changed it). A routine that raises
  returns the exception. \<open>percent_format\<close> is the operator \<^verbatim>\<open>%\<close> of a string or of bytes
  with the argument 1; \<open>isoparse\<close> returns the exception that \<^verbatim>\<open>isoparse(value)\<close> raises,
  if any.
\<close>

record pylib =
  json_dumps :: "pyval \<Rightarrow> pyerr + pyval"
  py_str :: "pyval \<Rightarrow> pyval"
  bytes_fromhex :: "string \<Rightarrow> pyerr + pyval"
  b64decode :: "string \<Rightarrow> pyerr + pyval"
  int_to_bytes :: "int \<Rightarrow> pyerr + pyval"
  str_strip :: "string \<Rightarrow> string"
  int_of_str :: "nat \<Rightarrow> string \<Rightarrow> pyerr + pyval"
  float_of :: "pyval \<Rightarrow> pyerr + pyval"
  decimal_of_float :: "pyval \<Rightarrow> pyerr + pyval"
  decimal_of_str :: "string \<Rightarrow> pyerr + pyval"
  from_timestamp :: "pyval \<Rightarrow> pyerr + pyval"
  isoparse :: "pyval \<Rightarrow> pyerr option"
  percent_format :: "pyval \<Rightarrow> pyerr + pyval"
  decimal_prec :: nat

text \<open>\<^verbatim>\<open>int(value)\<close> truncates towards zero.\<close>

definition py_trunc :: "rat \<Rightarrow> int" where
  "py_trunc q = (if 0 \<le> q then \<lfloor>q\<rfloor> else \<lceil>q\<rceil>)"

text \<open>
  The test \<^verbatim>\<open>value % 1 != 0\<close>. On integers and on finite floats the remainder is zero
  exactly when the value is integral; for a float that is infinite or not a number the
  remainder is not a number, which differs from 0. On decimals the remainder follows
  the General Decimal Arithmetic: it is not a number, and differs from 0, for a quiet
  NaN; the operation is invalid for an infinity and when the integer quotient has more
  digits than the precision of the context, and \<^verbatim>\<open>decimal.InvalidOperation\<close> is raised;
  otherwise it is the exact remainder of the truncating division (an exponent below
  the range of the context, where the remainder would underflow, is left out of the
  model). On a string or on bytes the operator formats: it raises, or it gives a
  string or bytes, which differ from 0. On \<^verbatim>\<open>None\<close>, a list or a dictionary it raises
  \<^verbatim>\<open>TypeError\<close>.
\<close>

definition mod_1_nonzero :: "pylib \<Rightarrow> pyval \<Rightarrow> pyerr + bool" where
  "mod_1_nonzero lib v =
     (case v of
        PBool b \<Rightarrow> Inr False
      | PInt i \<Rightarrow> Inr (i mod 1 \<noteq> 0)
      | PFloat (Fin q) \<Rightarrow> Inr (q - of_int \<lfloor>q\<rfloor> \<noteq> 0)
      | PFloat _ \<Rightarrow> Inr True
      | PDecimal (Fin q) \<Rightarrow>
          if 10 ^ decimal_prec lib \<le> \<bar>py_trunc q\<bar> then Inl InvalidOperation
          else Inr (q - of_int (py_trunc q) \<noteq> 0)
      | PDecimal NaN \<Rightarrow> Inr True
      | PDecimal _ \<Rightarrow> Inl InvalidOperation
      | PStr s \<Rightarrow> (case percent_format lib v of Inl e \<Rightarrow> Inl e | Inr r \<Rightarrow> Inr True)
      | PBytes s \<Rightarrow> (case percent_format lib v of Inl e \<Rightarrow> Inl e | Inr r \<Rightarrow> Inr True)
      | _ \<Rightarrow> Inl TypeError)"

definition py_int :: "pyval \<Rightarrow> pyerr + pyval" where
  "py_int v =
     (case v of
        PBool b \<Rightarrow> Inr (PInt (if b then 1 else 0))
      | PInt i \<Rightarrow> Inr (PInt i)
      | PFloat (Fin q) \<Rightarrow> Inr (PInt (py_trunc q))
      | PFloat NaN \<Rightarrow> Inl (ValueError v)
      | PFloat _ \<Rightarrow> Inl OverflowError
      | PDecimal (Fin q) \<Rightarrow> Inr (PInt (py_trunc q))
      | PDecimal NaN \<Rightarrow> Inl (ValueError v)
      | PDecimal _ \<Rightarrow> Inl OverflowError
      | _ \<Rightarrow> Inl TypeError)"

text \<open>The receiver of \<^verbatim>\<open>value.startswith\<close> and \<^verbatim>\<open>value.strip\<close>: a string, or the call raises.\<close>

definition as_str :: "pyval \<Rightarrow> pyerr + string" where
  "as_str v = (case v of PStr s \<Rightarrow> Inr s | PBytes s \<Rightarrow> Inl TypeError | _ \<Rightarrow> Inl AttributeError)"

text \<open>The text source of the integer types: \<^verbatim>\<open>int(trim_value[2:], 16)\<close> after the
  prefix \<^verbatim>\<open>0x\<close>, else \<^verbatim>\<open>int(trim_value)\<close>.\<close>

definition int_of_text :: "pylib \<Rightarrow> pyval \<Rightarrow> pyerr + pyval" where
  "int_of_text lib v =
     (case as_str v of
        Inl e \<Rightarrow> Inl e
      | Inr s \<Rightarrow>
          (let trim_value = str_strip lib s
           in if take 2 trim_value = ''0x'' then int_of_str lib 16 (drop 2 trim_value)
              else int_of_str lib 10 trim_value))"

text \<open>The blocks of \<^verbatim>\<open>coerce_type\<close>, one for each \<^verbatim>\<open>if to_type ...\<close>: \<open>Some\<close> the
  result when the block returns or raises, \<open>None\<close> when control falls through it.\<close>

definition coerce_to_binary :: "pylib \<Rightarrow> string \<Rightarrow> pyval \<Rightarrow> (pyerr + pyval) option" where
  "coerce_to_binary lib from_type v =
     (if from_type = ''text'' then
        Some (case as_str v of
                Inl e \<Rightarrow> Inl e
              | Inr s \<Rightarrow>
                  if take 2 s = ''0x'' then bytes_fromhex lib (drop 2 s)
                  else (case b64decode lib s of
                          Inl BinasciiError \<Rightarrow> Inl (ValueError v)
                        | r \<Rightarrow> r))
      else if from_type = ''bigint'' then
        Some (case v of PInt i \<Rightarrow> int_to_bytes lib i
                      | PBool b \<Rightarrow> int_to_bytes lib (if b then 1 else 0)
                      | _ \<Rightarrow> Inl AttributeError)
      else None)"

definition coerce_to_integer :: "pylib \<Rightarrow> string \<Rightarrow> pyval \<Rightarrow> (pyerr + pyval) option" where
  "coerce_to_integer lib from_type v =
     (if from_type = ''bigint'' then Some (Inr v)
      else if from_type \<in> set [''decimal'', ''double''] then
        Some (case mod_1_nonzero lib v of
                Inl e \<Rightarrow> Inl e
              | Inr True \<Rightarrow> Inl (ValueError v)
              | Inr False \<Rightarrow> py_int v)
      else if from_type = ''text'' then Some (int_of_text lib v)
      else None)"

definition coerce_to_double :: "pylib \<Rightarrow> string \<Rightarrow> pyval \<Rightarrow> (pyerr + pyval) option" where
  "coerce_to_double lib from_type v =
     (if from_type \<in> set [''bigint'', ''wei'', ''decimal''] then Some (float_of lib v)
      else if from_type = ''text'' then
        Some (case as_str v of
                Inl e \<Rightarrow> Inl e
              | Inr s \<Rightarrow>
                  (let trim_value = str_strip lib s
                   in if take 2 trim_value = ''0x'' then
                        (case int_of_str lib 16 (drop 2 trim_value) of
                           Inl e \<Rightarrow> Inl e | Inr i \<Rightarrow> float_of lib i)
                      else float_of lib (PStr trim_value)))
      else None)"

text \<open>In the decimal block the handler catches \<^verbatim>\<open>ConversionSyntax\<close> only; the decimal
  module reports a malformed literal by raising \<^verbatim>\<open>InvalidOperation\<close>, which passes it.
  In the binary block the handler catches \<^verbatim>\<open>binascii.Error\<close> only.\<close>

definition coerce_to_decimal :: "pylib \<Rightarrow> string \<Rightarrow> pyval \<Rightarrow> (pyerr + pyval) option" where
  "coerce_to_decimal lib from_type v =
     (if from_type \<in> set [''bigint'', ''wei''] then Some (Inr v)
      else if from_type = ''double'' then Some (decimal_of_float lib v)
      else if from_type = ''text'' then
        Some (case as_str v of
                Inl e \<Rightarrow> Inl e
              | Inr s \<Rightarrow>
                  (let trim_value = str_strip lib s
                   in if take 2 trim_value = ''0x'' then int_of_str lib 16 (drop 2 trim_value)
                      else if CHR ''.'' \<notin> set trim_value \<and> CHR ''e'' \<notin> set trim_value
                        then int_of_str lib 10 trim_value
                      else (case decimal_of_str lib trim_value of
                              Inl ConversionSyntax \<Rightarrow> Inl (ValueError (PStr trim_value))
                            | r \<Rightarrow> r)))
      else None)"

text \<open>\<^verbatim>\<open>int(value)\<close> in the timestamp block, where the value may be a string.\<close>

definition int_of_value :: "pylib \<Rightarrow> pyval \<Rightarrow> pyerr + pyval" where
  "int_of_value lib v =
     (case v of
        PStr s \<Rightarrow> int_of_str lib 10 s
      | PBytes s \<Rightarrow> int_of_str lib 10 s
      | _ \<Rightarrow> py_int v)"

definition coerce_to_timestamp :: "pylib \<Rightarrow> string \<Rightarrow> pyval \<Rightarrow> (pyerr + pyval) option" where
  "coerce_to_timestamp lib from_type v =
     (if from_type \<in> set [''bigint'', ''double''] then Some (from_timestamp lib v)
      else if from_type = ''text'' then
        Some (case isoparse lib v of
                None \<Rightarrow> Inr v
              | Some (ValueError _) \<Rightarrow>
                  (case int_of_value lib v of
                     Inr i \<Rightarrow> from_timestamp lib i
                   | Inl (ValueError _) \<Rightarrow>
                       (case float_of lib v of
                          Inl e \<Rightarrow> Inl e | Inr x \<Rightarrow> from_timestamp lib x)
                   | Inl e \<Rightarrow> Inl e)
              | Some e \<Rightarrow> Inl e)
      else None)"

definition or_else :: "'a option \<Rightarrow> 'a \<Rightarrow> 'a" where
  "or_else block rest = (case block of Some r \<Rightarrow> r | None \<Rightarrow> rest)"

text \<open>\<^verbatim>\<open>coerce_type(to_type, from_type, value)\<close>; the last line raises
  \<^verbatim>\<open>ValueError(value)\<close> when no block has returned.\<close>

definition coerce_type :: "pylib \<Rightarrow> string \<Rightarrow> string \<Rightarrow> pyval \<Rightarrow> pyerr + pyval" where
  "coerce_type lib to_type from_type v =
     (if to_type = from_type then
        (if to_type = ''complex'' then json_dumps lib v else Inr v)
      else if to_type = ''text'' then
        (if from_type = ''complex'' then json_dumps lib v else Inr (py_str lib v))
      else
        or_else (if to_type = ''binary'' then coerce_to_binary lib from_type v else None)
       (or_else (if to_type \<in> set [''wei'', ''bigint''] then coerce_to_integer lib from_type v else None)
       (or_else (if to_type = ''double'' then coerce_to_double lib from_type v else None)
       (or_else (if to_type = ''decimal'' then coerce_to_decimal lib from_type v else None)
       (or_else (if to_type = ''timestamp'' then coerce_to_timestamp lib from_type v else None)
          (Inl (ValueError v)))))))"

section \<open>What the specification says about legacy names\<close>

text \<open>The separator \<^verbatim>\<open>__\<close> occurs in \<open>s\<close> at index \<open>i\<close>; its last and its first
  occurrence.\<close>

definition sep_at :: "string \<Rightarrow> nat \<Rightarrow> bool" where
  "sep_at s i = (Suc i < length s \<and> s ! i = CHR ''_'' \<and> s ! Suc i = CHR ''_'')"

definition last_sep :: "string \<Rightarrow> nat \<Rightarrow> bool" where
  "last_sep s i = (sep_at s i \<and> (\<forall>j. sep_at s j \<longrightarrow> j \<le> i))"


text \<open>\<open>truncation s p\<close>: the name \<open>p\<close> is obtained from \<open>s\<close> by truncating at the last
  separator, which must be at a non-leading index, once or repeatedly.\<close>

inductive truncation :: "string \<Rightarrow> string \<Rightarrow> bool" where
  once: "last_sep s i \<Longrightarrow> 0 < i \<Longrightarrow> truncation s (take i s)"
| again: "last_sep s i \<Longrightarrow> 0 < i \<Longrightarrow> truncation (take i s) p \<Longrightarrow> truncation s p"

text \<open>The parent the specification gives a legacy table: the longest truncation of its
  name that names a legacy table, a strict prefix of the name; no parent when no
  truncation names a legacy table.\<close>

definition parent_spec :: "pydict \<Rightarrow> string \<Rightarrow> string option \<Rightarrow> bool" where
  "parent_spec old_tables name r =
     (case r of
        None \<Rightarrow> \<forall>q. truncation name q \<longrightarrow> map_of old_tables q = None
      | Some p \<Rightarrow>
          truncation name p \<and> map_of old_tables p \<noteq> None \<and>
          length p < length name \<and> p = take (length p) name \<and>
          (\<forall>q. truncation name q \<and> map_of old_tables q \<noteq> None \<longrightarrow> length q \<le> length p))"

text \<open>Two tables that differ at most in their filters.\<close>

definition same_but_filters :: "pydict \<Rightarrow> pydict \<Rightarrow> bool" where
  "same_but_filters t t' = (\<forall>k. k \<noteq> ''filters'' \<longrightarrow> map_of t' k = map_of t k)"

section \<open>What the specification says about legacy filters\<close>












section \<open>Results about schema names\<close>

lemmas name_defs = normalize_schema_name_def RE_LEADING_DIGITS_match_def
  RE_NON_ALPHANUMERIC_sub_def str_lower_def char_lower_def is_alphanumeric_def
  is_digit_def is_lower_def is_upper_def

text \<open>
  C6. Normalising a schema name twice is not the same as normalising it once: the
  leading-digit test runs before the non-alphanumeric characters are removed, so the
  name \<^verbatim>\<open>_1\<close> normalises to \<^verbatim>\<open>1\<close>, which starts with a digit and normalises to \<^verbatim>\<open>s1\<close>.
\<close>

theorem normalize_schema_name_not_idempotent:
  "normalize_schema_name ''_1'' = ''1'' \<and>
   normalize_schema_name (normalize_schema_name ''_1'') = ''s1'' \<and>
   normalize_schema_name (normalize_schema_name ''_1'') \<noteq> normalize_schema_name ''_1''"
  by (simp add: name_defs)

section \<open>Dictionary lookups after the basic operations\<close>

lemma map_of_update [simp]:
  "map_of (AList.update k v d) k' = (if k' = k then Some v else map_of d k')"
  by (simp add: update_conv')

lemma map_of_delete_if [simp]:
  "map_of (AList.delete k d) k' = (if k' = k then None else map_of d k')"
  by (simp add: delete_conv')

lemma map_of_set_tables [simp]:
  "map_of (set_tables ts d) k = (if k = ''tables'' then Some (PDict ts) else map_of d k)"
  by (simp add: set_tables_def)

lemma dict_pop_default_fst:
  "fst (dict_pop_default k dflt d) = (case map_of d k of None \<Rightarrow> dflt | Some v \<Rightarrow> v)"
  by (simp add: dict_pop_default_def split: option.splits)

lemma map_of_dict_pop_default [simp]:
  "map_of (snd (dict_pop_default k dflt d)) k' = (if k' = k then None else map_of d k')"
  by (auto simp: dict_pop_default_def split: option.splits)

lemma upgrade_1_2_lookup [simp]:
  "map_of (upgrade_1_2 d) k =
     (if k = ''excludes'' \<or> k = ''includes'' then Some (PList [])
      else if k = ''engine_version'' then Some (PInt 2) else map_of d k)"
  by (simp add: upgrade_1_2_def)

section \<open>Results about column hints\<close>

lemma delete_as_filter: "AList.delete h d = filter (\<lambda>kv. fst kv \<noteq> h) d"
  by (induction d) auto

lemma remove_default_hint_filter:
  assumes "distinct (map fst c)"
  shows "remove_default_hint c h = filter (\<lambda>kv. fst kv = h \<longrightarrow> keeps kv) c"
proof (cases "map_of c h = Some (PBool False) \<and> h \<noteq> ''nullable''")
  case True
  then have in_c: "(h, PBool False) \<in> set c" using assms by simp
  have "\<And>kv. kv \<in> set c \<Longrightarrow> (fst kv \<noteq> h) = (fst kv = h \<longrightarrow> keeps kv)"
  proof -
    fix kv assume kv: "kv \<in> set c"
    show "(fst kv \<noteq> h) = (fst kv = h \<longrightarrow> keeps kv)"
    proof (cases "fst kv = h")
      case False then show ?thesis by simp
    next
      case eq: True
      then have "(h, snd kv) \<in> set c" using kv by (metis prod.collapse)
      then have "map_of c h = Some (snd kv)" using assms by simp
      with True have "snd kv = PBool False" by simp
      with eq True show ?thesis by (simp add: keeps_def)
    qed
  qed
  then have "filter (\<lambda>kv. fst kv \<noteq> h) c = filter (\<lambda>kv. fst kv = h \<longrightarrow> keeps kv) c"
    by (rule filter_cong [OF refl])
  moreover have "AList.delete h c = filter (\<lambda>kv. fst kv \<noteq> h) c"
    by (rule delete_as_filter)
  ultimately show ?thesis using True by (simp add: remove_default_hint_def)
next
  case False
  have "\<And>kv. kv \<in> set c \<Longrightarrow> fst kv = h \<longrightarrow> keeps kv"
  proof
    fix kv assume kv: "kv \<in> set c" and eq: "fst kv = h"
    then have "(h, snd kv) \<in> set c" by (metis prod.collapse)
    then have "map_of c h = Some (snd kv)" using assms by simp
    with False eq show "keeps kv" by (auto simp: keeps_def)
  qed
  then have "filter (\<lambda>kv. fst kv = h \<longrightarrow> keeps kv) c = c"
    by (simp add: filter_id_conv)
  with False show ?thesis by (auto simp: remove_default_hint_def)
qed

lemma distinct_fst_filter: "distinct (map fst c) \<Longrightarrow> distinct (map fst (filter P c))"
  by (simp add: distinct_map_filter)

lemma foldl_remove_default_hint:
  assumes "distinct (map fst c)"
  shows "foldl remove_default_hint c ks = filter (\<lambda>kv. fst kv \<in> set ks \<longrightarrow> keeps kv) c"
  using assms
proof (induction ks arbitrary: c)
  case Nil
  then show ?case by simp
next
  case (Cons h ks)
  have d: "distinct (map fst (filter (\<lambda>kv. fst kv = h \<longrightarrow> keeps kv) c))"
    using Cons.prems by (rule distinct_fst_filter)
  show ?case
    using Cons.IH [OF d] Cons.prems
    by (auto simp: remove_default_hint_filter intro!: filter_cong)
qed

lemma map_of_filter_distinct:
  assumes "distinct (map fst c)"
  shows "map_of (filter P c) k =
     (case map_of c k of None \<Rightarrow> None | Some v \<Rightarrow> if P (k, v) then Some v else None)"
  using assms
  by (induction c) (auto split: option.splits simp: rev_image_eqI)

lemma distinct_delete_keys: "distinct (map fst c) \<Longrightarrow> distinct (map fst (AList.delete k c))"
  by (simp add: distinct_delete)

lemma clean_column_filter:
  assumes "distinct (map fst c)" and "map_of c ''name'' = Some n"
  shows "clean_column (PDict c) = Inr (PDict (filter keeps (AList.delete ''name'' c)))"
proof -
  have "foldl remove_default_hint (AList.delete ''name'' c) (map fst (AList.delete ''name'' c))
      = filter keeps (AList.delete ''name'' c)"
    using distinct_delete_keys [OF assms(1)]
    by (auto simp: foldl_remove_default_hint intro!: filter_cong)
  then show ?thesis using assms by (simp add: clean_column_def dict_delitem_def)
qed

lemma map_of_clean:
  assumes "distinct (map fst c)"
  shows "map_of (filter keeps (AList.delete ''name'' c)) k =
     (if k = ''name'' then None
      else if map_of c k = Some (PBool False) \<and> k \<noteq> ''nullable'' then None
      else map_of c k)"
  using distinct_delete_keys [OF assms]
  by (auto simp: map_of_filter_distinct keeps_def split: option.splits)

lemma foldl_update_distinct:
  "distinct (map fst d) \<Longrightarrow> distinct (map fst (foldl (\<lambda>d (k, v). AList.update k v d) d xs))"
  by (induction xs arbitrary: d) (simp_all add: distinct_update split: prod.splits)

lemma map_of_foldl_update:
  assumes "distinct (map fst xs)"
  shows "map_of (foldl (\<lambda>d (k, v). AList.update k v d) d xs) k =
     (case map_of xs k of None \<Rightarrow> map_of d k | Some v \<Rightarrow> Some v)"
  using assms
proof (induction xs arbitrary: d)
  case Nil
  then show ?case by simp
next
  case (Cons x xs)
  then show ?case
    by (cases x) (auto split: option.splits simp: map_of_eq_None_iff image_iff)
qed

lemma map_of_default_hints:
  "map_of default_hints k = (if k \<in> set hint_names then Some (PBool False) else None)"
  by (simp add: default_hints_def hint_names_def)

lemma distinct_add_missing_hints: "distinct (map fst (add_missing_hints c))"
  by (simp add: add_missing_hints_def foldl_update_distinct default_hints_def)

lemma map_of_add_missing_hints:
  assumes "distinct (map fst c)"
  shows "map_of (add_missing_hints c) k =
     (case map_of c k of
        None \<Rightarrow> if k \<in> set hint_names then Some (PBool False) else None
      | Some v \<Rightarrow> Some v)"
  using assms
  by (simp add: add_missing_hints_def map_of_foldl_update map_of_default_hints
      split: option.splits)

lemma case_some_dict:
  "(case m of Some (PDict x) \<Rightarrow> P x | _ \<Rightarrow> False) \<longleftrightarrow> (\<exists>x. m = Some (PDict x) \<and> P x)"
proof (cases m)
  case None
  then show ?thesis by simp
next
  case (Some v)
  then show ?thesis by (cases v) simp_all
qed

lemma column_in_iff:
  "column_in d tn cn c \<longleftrightarrow>
     (\<exists>tables t columns.
        map_of d ''tables'' = Some (PDict tables) \<and>
        map_of tables tn = Some (PDict t) \<and>
        map_of t ''columns'' = Some (PDict columns) \<and>
        map_of columns cn = Some (PDict c))"
  unfolding column_in_def case_some_dict by blast

lemma stored_column_filter:
  "filter keeps (AList.delete ''name'' c) = stored_column c"
  by (simp add: stored_column_def delete_as_filter conj_commute)

lemma column_ready_D:
  assumes "column_ready cv"
  shows "\<exists>c. cv = PDict c \<and> distinct (map fst c) \<and> map_of c ''name'' \<noteq> None"
  using assms by (cases cv) (auto simp: column_ready_def)

lemma clean_column_stored:
  assumes "column_ready cv"
  shows "clean_column cv = Inr (stored_column_value cv)"
proof -
  from column_ready_D [OF assms] obtain c n where cv: "cv = PDict c"
    and d: "distinct (map fst c)" and n: "map_of c ''name'' = Some n" by auto
  from clean_column_filter [OF d n] show ?thesis
    by (simp add: cv stored_column_value_def stored_column_filter)
qed

lemma dict_map_values_map:
  assumes "\<And>kv. kv \<in> set d \<Longrightarrow> f (snd kv) = Inr (g (snd kv))"
  shows "dict_map_values f d = Inr (map (\<lambda>kv. (fst kv, g (snd kv))) d)"
  using assms
proof (induction d)
  case Nil
  then show ?case by simp
next
  case (Cons kv d)
  obtain k v where kv: "kv = (k, v)" by (cases kv)
  from Cons.prems [of kv] kv have "f v = Inr (g v)" by simp
  moreover have "dict_map_values f d = Inr (map (\<lambda>kv. (fst kv, g (snd kv))) d)"
    using Cons.prems by (intro Cons.IH) simp
  ultimately show ?case by (simp add: kv)
qed

lemma table_ready_D:
  assumes "table_ready tv"
  shows "\<exists>t columns. tv = PDict t \<and> distinct (map fst t) \<and> map_of t ''name'' \<noteq> None \<and>
     map_of t ''columns'' = Some (PDict columns) \<and>
     list_all (\<lambda>kv. column_ready (snd kv)) columns"
proof (cases tv)
  case (PDict t)
  with assms have n: "distinct (map fst t) \<and> map_of t ''name'' \<noteq> None"
    and c: "case map_of t ''columns'' of
             Some (PDict columns) \<Rightarrow> list_all (\<lambda>kv. column_ready (snd kv)) columns
           | _ \<Rightarrow> False"
    by (auto simp: table_ready_def)
  from c obtain cv where cv: "map_of t ''columns'' = Some cv" by (cases "map_of t ''columns''") auto
  with c obtain columns where "cv = PDict columns" by (cases cv) auto
  with c cv n PDict show ?thesis by auto
qed (use assms in \<open>simp_all add: table_ready_def\<close>)

lemma schema_ready_D:
  assumes "schema_ready d"
  shows "\<exists>tables. map_of d ''tables'' = Some (PDict tables) \<and>
     list_all (\<lambda>kv. table_ready (snd kv)) tables"
proof -
  from assms have c: "case map_of d ''tables'' of
        Some (PDict tables) \<Rightarrow> list_all (\<lambda>kv. table_ready (snd kv)) tables
      | _ \<Rightarrow> False" by (simp add: schema_ready_def)
  then obtain tv where tv: "map_of d ''tables'' = Some tv" by (cases "map_of d ''tables''") auto
  with c obtain tables where "tv = PDict tables" by (cases tv) auto
  with c tv show ?thesis by auto
qed

lemma update_as_map:
  assumes "distinct (map fst xs)" and "k \<in> fst ` set xs"
  shows "AList.update k v xs = map (\<lambda>kv. if fst kv = k then (fst kv, v) else kv) xs"
  using assms
proof (induction xs)
  case Nil
  then show ?case by simp
next
  case (Cons x xs)
  show ?case
  proof (cases "fst x = k")
    case True
    with Cons.prems(1) have "k \<notin> fst ` set xs" by auto
    then have "map (\<lambda>kv. if fst kv = k then (fst kv, v) else kv) xs = xs"
      by (intro map_idI) auto
    with True show ?thesis by simp
  next
    case False
    with Cons show ?thesis by auto
  qed
qed

lemma clean_table_stored:
  assumes "table_ready tv"
  shows "clean_table tv = Inr (stored_table_value tv)"
proof -
  from table_ready_D [OF assms] obtain t columns n where tv: "tv = PDict t"
    and d: "distinct (map fst t)" and n: "map_of t ''name'' = Some n"
    and c: "map_of t ''columns'' = Some (PDict columns)"
    and r: "list_all (\<lambda>kv. column_ready (snd kv)) columns"
    by auto
  let ?t1 = "filter (\<lambda>kv. fst kv \<noteq> ''name'') t"
  let ?cs = "map (\<lambda>kv. (fst kv, stored_column_value (snd kv))) columns"
  have m: "dict_map_values clean_column columns = Inr ?cs"
    using r by (intro dict_map_values_map) (simp add: list_all_iff clean_column_stored)
  have d1: "distinct (map fst ?t1)" using d by (rule distinct_fst_filter)
  have c1: "map_of ?t1 ''columns'' = Some (PDict columns)"
    using c d by (simp add: map_of_filter_distinct)
  then have in1: "''columns'' \<in> fst ` set ?t1" by (metis map_of_eq_None_iff option.distinct(1))
  have "AList.update ''columns'' (PDict ?cs) ?t1 =
      map (\<lambda>kv. if fst kv = ''columns'' then (fst kv, PDict ?cs) else kv) ?t1"
    using d1 in1 by (rule update_as_map)
  also have "\<dots> = stored_table t"
    unfolding stored_table_def
  proof (rule map_cong [OF refl])
    fix kv assume kv: "kv \<in> set ?t1"
    show "(if fst kv = ''columns'' then (fst kv, PDict ?cs) else kv) =
        (if fst kv = ''columns'' then (fst kv, stored_columns_value (snd kv)) else kv)"
    proof (cases "fst kv = ''columns''")
      case True
      with kv have "(''columns'', snd kv) \<in> set ?t1" by (metis prod.collapse)
      with d1 have "map_of ?t1 ''columns'' = Some (snd kv)" by simp
      with c1 have "snd kv = PDict columns" by simp
      with True show ?thesis by (simp add: stored_columns_value_def)
    next
      case False
      then show ?thesis by simp
    qed
  qed
  finally have u: "AList.update ''columns'' (PDict ?cs) ?t1 = stored_table t" .
  have "clean_table tv =
      Inr (PDict (AList.update ''columns'' (PDict ?cs) (AList.delete ''name'' t)))"
    using n c m by (simp add: tv clean_table_def dict_delitem_def dict_getitem_def)
  then show ?thesis
    by (simp add: tv stored_table_value_def delete_as_filter u)
qed

lemma remove_defaults_ready:
  assumes "schema_ready d"
  shows "\<exists>tables. map_of d ''tables'' = Some (PDict tables) \<and>
     remove_defaults d =
       \<lparr>schema_after = AList.update ''tables'' (PDict (stored_tables tables)) d,
        tables_after = Some (PDict tables), returned = Inr PNone\<rparr>"
proof -
  from schema_ready_D [OF assms] obtain tables where
    t: "map_of d ''tables'' = Some (PDict tables)"
    and r: "list_all (\<lambda>kv. table_ready (snd kv)) tables" by blast
  have "dict_map_values clean_table tables = Inr (stored_tables tables)"
    unfolding stored_tables_def
    using r by (intro dict_map_values_map) (simp add: list_all_iff clean_table_stored)
  with t show ?thesis
    by (simp add: remove_defaults_def dict_getitem_def deepcopy_def)
qed

lemma map_of_map_values:
  "map_of (map (\<lambda>kv. (fst kv, g (snd kv))) xs) k = map_option g (map_of xs k)"
  by (induction xs) auto

lemma map_of_stored_table:
  "map_of (stored_table t) ''columns'' = map_option stored_columns_value (map_of t ''columns'')"
  unfolding stored_table_def by (induction t) auto

lemma column_in_stored:
  assumes "schema_ready d" and "column_in d tn cn c"
  shows "column_in (schema_after (remove_defaults d)) tn cn (stored_column c)"
proof -
  from assms(2) obtain tables t columns where
    a: "map_of d ''tables'' = Some (PDict tables)"
    and b: "map_of tables tn = Some (PDict t)"
    and c: "map_of t ''columns'' = Some (PDict columns)"
    and e: "map_of columns cn = Some (PDict c)"
    unfolding column_in_iff by blast
  from remove_defaults_ready [OF assms(1)] a have
    rd: "schema_after (remove_defaults d) = AList.update ''tables'' (PDict (stored_tables tables)) d"
    by auto
  have 1: "map_of (schema_after (remove_defaults d)) ''tables'' = Some (PDict (stored_tables tables))"
    by (simp add: rd)
  have "map_of (stored_tables tables) tn = map_option stored_table_value (map_of tables tn)"
    by (simp add: stored_tables_def map_of_map_values)
  then have 2: "map_of (stored_tables tables) tn = Some (PDict (stored_table t))"
    by (simp add: b stored_table_value_def)
  have 3: "map_of (stored_table t) ''columns'' =
      Some (PDict (map (\<lambda>kv. (fst kv, stored_column_value (snd kv))) columns))"
    by (simp add: map_of_stored_table c stored_columns_value_def)
  have "map_of (map (\<lambda>kv. (fst kv, stored_column_value (snd kv))) columns) cn =
      map_option stored_column_value (map_of columns cn)"
    by (rule map_of_map_values)
  then have 4: "map_of (map (\<lambda>kv. (fst kv, stored_column_value (snd kv))) columns) cn =
      Some (PDict (stored_column c))"
    by (simp add: e stored_column_value_def)
  from 1 2 3 4 show ?thesis unfolding column_in_iff by blast
qed

lemma column_in_ready:
  assumes "schema_ready d" and "column_in d tn cn c"
  shows "distinct (map fst c) \<and> map_of c ''name'' \<noteq> None"
proof -
  from assms(2) obtain tables t columns where
    a: "map_of d ''tables'' = Some (PDict tables)"
    and b: "map_of tables tn = Some (PDict t)"
    and c: "map_of t ''columns'' = Some (PDict columns)"
    and e: "map_of columns cn = Some (PDict c)"
    unfolding column_in_iff by blast
  from schema_ready_D [OF assms(1)] a have "list_all (\<lambda>kv. table_ready (snd kv)) tables" by auto
  moreover from b have "(tn, PDict t) \<in> set tables" by (rule map_of_SomeD)
  ultimately have "table_ready (PDict t)" by (auto simp: list_all_iff)
  from table_ready_D [OF this] c have "list_all (\<lambda>kv. column_ready (snd kv)) columns" by auto
  moreover from e have "(cn, PDict c) \<in> set columns" by (rule map_of_SomeD)
  ultimately have "column_ready (PDict c)" by (auto simp: list_all_iff)
  then show ?thesis by (auto simp: column_ready_def)
qed

lemma column_in_unique: "column_in d tn cn c \<Longrightarrow> column_in d tn cn c' \<Longrightarrow> c = c'"
  unfolding column_in_iff by auto

lemma map_of_stored_column:
  assumes "distinct (map fst c)"
  shows "map_of (stored_column c) k =
     (if k = ''name'' then None
      else if map_of c k = Some (PBool False) \<and> k \<noteq> ''nullable'' then None
      else map_of c k)"
  using map_of_clean [OF assms, of k] by (simp add: stored_column_filter)




text \<open>
  C7. Let \<open>c\<close> be a column of a schema document in working form, and \<open>h\<close> a key other
  than \<open>nullable\<close> and \<open>name\<close>, so \<open>h\<close> may be any of the six hint flags.
  \<^verbatim>\<open>remove_defaults\<close> returns, and the column \<open>s\<close> that the document then holds in
  the place of \<open>c\<close> lacks \<open>h\<close> exactly when \<open>c\<close> held \<^verbatim>\<open>False\<close> or nothing under \<open>h\<close>; a
  flag that is \<^verbatim>\<open>True\<close> stays; \<open>nullable\<close> is kept with its value, whatever it is. A
  column with the flag \<^verbatim>\<open>False\<close> and the same column with the flag absent are stored
  identically: when \<open>c\<close> holds \<^verbatim>\<open>False\<close> under \<open>h\<close>, any document that holds \<open>c\<close>
  without \<open>h\<close> stores \<open>s\<close> too, and when \<open>c\<close> lacks \<open>h\<close>, any document that holds \<open>c\<close>
  with \<open>h\<close> set to \<^verbatim>\<open>False\<close> stores \<open>s\<close> too.
\<close>

theorem remove_defaults_hint_flags:
  assumes ready: "schema_ready d" and col: "column_in d tn cn c"
    and h: "h \<noteq> ''nullable''" "h \<noteq> ''name''"
  shows "\<exists>s. returned (remove_defaults d) = Inr PNone \<and>
     column_in (schema_after (remove_defaults d)) tn cn s \<and>
     map_of s h = (if map_of c h = Some (PBool False) then None else map_of c h) \<and>
     (map_of c h = Some (PBool True) \<longrightarrow> map_of s h = Some (PBool True)) \<and>
     map_of s ''nullable'' = map_of c ''nullable'' \<and>
     (\<forall>d' tn' cn'. map_of c h = Some (PBool False) \<longrightarrow> schema_ready d' \<longrightarrow>
        column_in d' tn' cn' (AList.delete h c) \<longrightarrow>
        column_in (schema_after (remove_defaults d')) tn' cn' s) \<and>
     (\<forall>d' tn' cn'. map_of c h = None \<longrightarrow> schema_ready d' \<longrightarrow>
        column_in d' tn' cn' (AList.update h (PBool False) c) \<longrightarrow>
        column_in (schema_after (remove_defaults d')) tn' cn' s)"
proof (intro exI conjI allI impI)
  let ?s = "stored_column c"
  from column_in_ready [OF ready col] have dist: "distinct (map fst c)" by simp
  from remove_defaults_ready [OF ready] show "returned (remove_defaults d) = Inr PNone" by auto
  show "column_in (schema_after (remove_defaults d)) tn cn ?s"
    using ready col by (rule column_in_stored)
  show "map_of ?s h = (if map_of c h = Some (PBool False) then None else map_of c h)"
    using h by (simp add: map_of_stored_column [OF dist])
  show "map_of ?s h = Some (PBool True)" if "map_of c h = Some (PBool True)"
    using h that by (simp add: map_of_stored_column [OF dist])
  show "map_of ?s ''nullable'' = map_of c ''nullable''"
    by (simp add: map_of_stored_column [OF dist])
  show "column_in (schema_after (remove_defaults d')) tn' cn' ?s"
    if f: "map_of c h = Some (PBool False)" and r': "schema_ready d'"
      and c': "column_in d' tn' cn' (AList.delete h c)" for d' tn' cn'
  proof -
    have "\<And>kv. kv \<in> set c \<Longrightarrow> fst kv \<noteq> ''name'' \<and> keeps kv \<Longrightarrow> fst kv \<noteq> h"
    proof
      fix kv assume "kv \<in> set c" and k: "fst kv \<noteq> ''name'' \<and> keeps kv" and e: "fst kv = h"
      then have "(h, snd kv) \<in> set c" by (metis prod.collapse)
      then have "map_of c h = Some (snd kv)" using dist by simp
      with f h(1) e k show False by (simp add: keeps_def)
    qed
    then have "stored_column (AList.delete h c) = ?s"
      unfolding stored_column_def delete_as_filter filter_filter
      by (intro filter_cong) auto
    with column_in_stored [OF r' c'] show ?thesis by simp
  qed
  show "column_in (schema_after (remove_defaults d')) tn' cn' ?s"
    if a: "map_of c h = None" and r': "schema_ready d'"
      and c': "column_in d' tn' cn' (AList.update h (PBool False) c)" for d' tn' cn'
  proof -
    have notin: "h \<notin> fst ` set c" using a by (simp add: map_of_eq_None_iff)
    then have upd: "AList.update h (PBool False) c = c @ [(h, PBool False)]"
      by (induction c) auto
    have "stored_column (AList.update h (PBool False) c) = ?s"
      using h(1) by (simp add: upd stored_column_def keeps_def)
    with column_in_stored [OF r' c'] show ?thesis by simp
  qed
qed

theorem remove_defaults_hint_flags_witness:
  "schema_ready
     [(''name'', PStr ''shop''),
      (''tables'', PDict [(''orders'', PDict [(''name'', PStr ''orders''),
          (''columns'', PDict [(''id'', PDict
             [(''name'', PStr ''id''), (''data_type'', PStr ''bigint''), (''nullable'', PBool False),
              (''unique'', PBool False), (''primary_key'', PBool True)])])])])] \<and>
   column_in
     [(''name'', PStr ''shop''),
      (''tables'', PDict [(''orders'', PDict [(''name'', PStr ''orders''),
          (''columns'', PDict [(''id'', PDict
             [(''name'', PStr ''id''), (''data_type'', PStr ''bigint''), (''nullable'', PBool False),
              (''unique'', PBool False), (''primary_key'', PBool True)])])])])]
     ''orders'' ''id''
     [(''name'', PStr ''id''), (''data_type'', PStr ''bigint''), (''nullable'', PBool False),
              (''unique'', PBool False), (''primary_key'', PBool True)] \<and>
   ''unique'' \<noteq> ''nullable'' \<and> ''unique'' \<noteq> ''name'' \<and>
   ''primary_key'' \<noteq> ''nullable'' \<and> ''primary_key'' \<noteq> ''name'' \<and>
   schema_ready
     [(''name'', PStr ''shop''),
      (''tables'', PDict [(''orders'', PDict [(''name'', PStr ''orders''),
          (''columns'', PDict [(''id'', PDict
             [(''name'', PStr ''id''), (''data_type'', PStr ''bigint''), (''nullable'', PBool False),
              (''primary_key'', PBool True)])])])])] \<and>
   column_in
     [(''name'', PStr ''shop''),
      (''tables'', PDict [(''orders'', PDict [(''name'', PStr ''orders''),
          (''columns'', PDict [(''id'', PDict
             [(''name'', PStr ''id''), (''data_type'', PStr ''bigint''), (''nullable'', PBool False),
              (''primary_key'', PBool True)])])])])]
     ''orders'' ''id''
     (AList.delete ''unique''
        [(''name'', PStr ''id''), (''data_type'', PStr ''bigint''), (''nullable'', PBool False),
              (''unique'', PBool False), (''primary_key'', PBool True)]) \<and>
   schema_ready
     [(''name'', PStr ''shop''),
      (''tables'', PDict [(''orders'', PDict [(''name'', PStr ''orders''),
          (''columns'', PDict [(''id'', PDict
             [(''name'', PStr ''id''), (''data_type'', PStr ''bigint''), (''nullable'', PBool False),
              (''primary_key'', PBool True), (''unique'', PBool False)])])])])] \<and>
   column_in
     [(''name'', PStr ''shop''),
      (''tables'', PDict [(''orders'', PDict [(''name'', PStr ''orders''),
          (''columns'', PDict [(''id'', PDict
             [(''name'', PStr ''id''), (''data_type'', PStr ''bigint''), (''nullable'', PBool False),
              (''primary_key'', PBool True), (''unique'', PBool False)])])])])]
     ''orders'' ''id''
     (AList.update ''unique'' (PBool False)
        [(''name'', PStr ''id''), (''data_type'', PStr ''bigint''), (''nullable'', PBool False),
              (''primary_key'', PBool True)]) \<and>
   (\<exists>s. returned (remove_defaults
     [(''name'', PStr ''shop''),
      (''tables'', PDict [(''orders'', PDict [(''name'', PStr ''orders''),
          (''columns'', PDict [(''id'', PDict
             [(''name'', PStr ''id''), (''data_type'', PStr ''bigint''), (''nullable'', PBool False),
              (''unique'', PBool False), (''primary_key'', PBool True)])])])])]) = Inr PNone \<and>
      column_in (schema_after (remove_defaults
     [(''name'', PStr ''shop''),
      (''tables'', PDict [(''orders'', PDict [(''name'', PStr ''orders''),
          (''columns'', PDict [(''id'', PDict
             [(''name'', PStr ''id''), (''data_type'', PStr ''bigint''), (''nullable'', PBool False),
              (''unique'', PBool False), (''primary_key'', PBool True)])])])])])) ''orders'' ''id'' s \<and>
      map_of s ''unique'' = None \<and>
      map_of s ''primary_key'' = Some (PBool True) \<and>
      map_of s ''nullable'' = Some (PBool False) \<and>
      column_in (schema_after (remove_defaults
     [(''name'', PStr ''shop''),
      (''tables'', PDict [(''orders'', PDict [(''name'', PStr ''orders''),
          (''columns'', PDict [(''id'', PDict
             [(''name'', PStr ''id''), (''data_type'', PStr ''bigint''), (''nullable'', PBool False),
              (''primary_key'', PBool True)])])])])])) ''orders'' ''id'' s \<and>
      column_in (schema_after (remove_defaults
     [(''name'', PStr ''shop''),
      (''tables'', PDict [(''orders'', PDict [(''name'', PStr ''orders''),
          (''columns'', PDict [(''id'', PDict
             [(''name'', PStr ''id''), (''data_type'', PStr ''bigint''), (''nullable'', PBool False),
              (''primary_key'', PBool True), (''unique'', PBool False)])])])])])) ''orders'' ''id'' s)"
proof -
  let ?c = "[(''name'', PStr ''id''), (''data_type'', PStr ''bigint''), (''nullable'', PBool False),
              (''unique'', PBool False), (''primary_key'', PBool True)]"
  let ?c1 = "[(''name'', PStr ''id''), (''data_type'', PStr ''bigint''), (''nullable'', PBool False),
              (''primary_key'', PBool True)]"
  let ?d = "[(''name'', PStr ''shop''),
      (''tables'', PDict [(''orders'', PDict [(''name'', PStr ''orders''),
          (''columns'', PDict [(''id'', PDict
             [(''name'', PStr ''id''), (''data_type'', PStr ''bigint''), (''nullable'', PBool False),
              (''unique'', PBool False), (''primary_key'', PBool True)])])])])]"
  let ?d1 = "[(''name'', PStr ''shop''),
      (''tables'', PDict [(''orders'', PDict [(''name'', PStr ''orders''),
          (''columns'', PDict [(''id'', PDict
             [(''name'', PStr ''id''), (''data_type'', PStr ''bigint''), (''nullable'', PBool False),
              (''primary_key'', PBool True)])])])])]"
  let ?d2 = "[(''name'', PStr ''shop''),
      (''tables'', PDict [(''orders'', PDict [(''name'', PStr ''orders''),
          (''columns'', PDict [(''id'', PDict
             [(''name'', PStr ''id''), (''data_type'', PStr ''bigint''), (''nullable'', PBool False),
              (''primary_key'', PBool True), (''unique'', PBool False)])])])])]"
  have r: "schema_ready ?d" and r1: "schema_ready ?d1" and r2: "schema_ready ?d2"
    by (simp_all add: schema_ready_def table_ready_def column_ready_def)
  have c: "column_in ?d ''orders'' ''id'' ?c"
    by (simp add: column_in_def)
  have c1: "column_in ?d1 ''orders'' ''id'' (AList.delete ''unique'' ?c)"
    by (simp add: column_in_def)
  have c1': "column_in ?d1 ''orders'' ''id'' ?c1"
    by (simp add: column_in_def)
  have c2: "column_in ?d2 ''orders'' ''id'' (AList.update ''unique'' (PBool False) ?c1)"
    by (simp add: column_in_def)
  have h: "''unique'' \<noteq> ''nullable''" "''unique'' \<noteq> ''name''" by simp_all
  have p: "''primary_key'' \<noteq> ''nullable''" "''primary_key'' \<noteq> ''name''" by simp_all
  have f: "map_of ?c ''unique'' = Some (PBool False)" by simp
  have a: "map_of ?c1 ''unique'' = None" by simp
  from remove_defaults_hint_flags [OF r c h] obtain s where
    ret: "returned (remove_defaults ?d) = Inr PNone"
    and col: "column_in (schema_after (remove_defaults ?d)) ''orders'' ''id'' s"
    and flag: "map_of s ''unique'' = (if map_of ?c ''unique'' = Some (PBool False) then None
              else map_of ?c ''unique'')"
    and null: "map_of s ''nullable'' = map_of ?c ''nullable''"
    and same: "\<forall>d' tn' cn'. map_of ?c ''unique'' = Some (PBool False) \<longrightarrow> schema_ready d' \<longrightarrow>
        column_in d' tn' cn' (AList.delete ''unique'' ?c) \<longrightarrow>
        column_in (schema_after (remove_defaults d')) tn' cn' s"
    by blast
  from remove_defaults_hint_flags [OF r c p] obtain s' where
    col': "column_in (schema_after (remove_defaults ?d)) ''orders'' ''id'' s'"
    and true: "map_of ?c ''primary_key'' = Some (PBool True) \<longrightarrow>
        map_of s' ''primary_key'' = Some (PBool True)"
    by blast
  from remove_defaults_hint_flags [OF r1 c1' h] obtain s'' where
    col'': "column_in (schema_after (remove_defaults ?d1)) ''orders'' ''id'' s''"
    and absent: "\<forall>d' tn' cn'. map_of ?c1 ''unique'' = None \<longrightarrow> schema_ready d' \<longrightarrow>
        column_in d' tn' cn' (AList.update ''unique'' (PBool False) ?c1) \<longrightarrow>
        column_in (schema_after (remove_defaults d')) tn' cn' s''"
    by blast
  from col col' have "s' = s" by (rule column_in_unique [symmetric])
  with true have pk: "map_of s ''primary_key'' = Some (PBool True)" by simp
  from flag have u: "map_of s ''unique'' = None" by simp
  from null have n: "map_of s ''nullable'' = Some (PBool False)" by simp
  from same f r1 c1 have e1: "column_in (schema_after (remove_defaults ?d1)) ''orders'' ''id'' s"
    by blast
  from e1 col'' have "s'' = s" by (rule column_in_unique [symmetric])
  with absent a r2 c2 have e2: "column_in (schema_after (remove_defaults ?d2)) ''orders'' ''id'' s"
    by blast
  from ret col u pk n e1 e2 have "\<exists>s. returned (remove_defaults ?d) = Inr PNone \<and>
      column_in (schema_after (remove_defaults ?d)) ''orders'' ''id'' s \<and>
      map_of s ''unique'' = None \<and>
      map_of s ''primary_key'' = Some (PBool True) \<and>
      map_of s ''nullable'' = Some (PBool False) \<and>
      column_in (schema_after (remove_defaults ?d1)) ''orders'' ''id'' s \<and>
      column_in (schema_after (remove_defaults ?d2)) ''orders'' ''id'' s" by blast
  with r c h p r1 c1 r2 c2 show ?thesis by blast
qed

text \<open>
  C8, as the claim states it, fails: collapsing deletes the name of the column and
  expanding does not put it back, so the round trip of a working column has no \<open>name\<close>.
\<close>

theorem expand_collapse_expand_counterexample:
  "clean_column (PDict (add_missing_hints
      [(''name'', PStr ''id''), (''data_type'', PStr ''bigint''), (''nullable'', PBool True),
       (''partition'', PBool False), (''cluster'', PBool False), (''unique'', PBool True),
       (''sort'', PBool False), (''primary_key'', PBool False), (''foreign_key'', PBool False)]))
     = Inr (PDict [(''unique'', PBool True), (''data_type'', PStr ''bigint''),
                   (''nullable'', PBool True)]) \<and>
   add_missing_hints [(''unique'', PBool True), (''data_type'', PStr ''bigint''),
                      (''nullable'', PBool True)]
     = [(''partition'', PBool False), (''cluster'', PBool False), (''unique'', PBool True),
        (''sort'', PBool False), (''primary_key'', PBool False), (''foreign_key'', PBool False),
        (''data_type'', PStr ''bigint''), (''nullable'', PBool True)] \<and>
   map_of (add_missing_hints [(''unique'', PBool True), (''data_type'', PStr ''bigint''),
                      (''nullable'', PBool True)]) ''name''
     \<noteq> map_of [(''name'', PStr ''id''), (''data_type'', PStr ''bigint''), (''nullable'', PBool True),
       (''partition'', PBool False), (''cluster'', PBool False), (''unique'', PBool True),
       (''sort'', PBool False), (''primary_key'', PBool False), (''foreign_key'', PBool False)] ''name''"
  by (simp add: clean_column_def dict_delitem_def remove_default_hint_def add_missing_hints_def
      default_hints_def)

text \<open>
  C8, amended. For a working column \<open>w\<close>, expanding changes no entry. Collapsing the
  expanded column succeeds, in the loop body and in \<^verbatim>\<open>remove_defaults\<close> on any schema
  document in working form that holds the expanded column, and keeps \<open>nullable\<close> as it
  is. Expanding the collapsed column gives back every entry of \<open>w\<close>, except \<open>name\<close>, and
  except an entry that holds \<^verbatim>\<open>False\<close> under a key other than \<open>nullable\<close> and the six
  hint flags: the collapse deletes these and the expansion does not put them back.
\<close>

theorem expand_collapse_expand:
  assumes "working_column w"
  shows "\<exists>s. map_of (add_missing_hints w) = map_of w \<and>
     clean_column (PDict (add_missing_hints w)) = Inr (PDict s) \<and>
     (\<forall>d tn cn. schema_ready d \<longrightarrow> column_in d tn cn (add_missing_hints w) \<longrightarrow>
        column_in (schema_after (remove_defaults d)) tn cn s) \<and>
     map_of s ''nullable'' = map_of w ''nullable'' \<and>
     (\<forall>k. map_of (add_missing_hints s) k =
        (if k = ''name'' \<or>
            (map_of w k = Some (PBool False) \<and> k \<notin> set (''nullable'' # hint_names))
         then None else map_of w k))"
proof -
  let ?e = "add_missing_hints w"
  let ?s = "stored_column ?e"
  from assms have dw: "distinct (map fst w)"
    and wc2: "\<forall>k\<in>set (''name'' # ''data_type'' # ''nullable'' # hint_names). map_of w k \<noteq> None"
    unfolding working_column_def list_all_iff by blast+
  have present: "map_of w k \<noteq> None" if "k = ''name'' \<or> k \<in> set hint_names" for k
    using that wc2 by (metis list.set_intros(1) list.set_intros(2))
  have name_no_hint: "''name'' \<notin> set hint_names"
    by (simp add: hint_names_def default_hints_def)
  have e: "map_of ?e = map_of w"
  proof
    fix k show "map_of ?e k = map_of w k"
      using present [of k] by (auto simp: map_of_add_missing_hints [OF dw] split: option.splits)
  qed
  obtain n where n: "map_of ?e ''name'' = Some n"
    using present [of "''name''"] e by auto
  have c: "clean_column (PDict ?e) = Inr (PDict ?s)"
    using clean_column_filter [OF distinct_add_missing_hints n]
    by (simp add: stored_column_filter)
  have ds: "distinct (map fst ?s)"
    unfolding stored_column_def by (intro distinct_fst_filter distinct_add_missing_hints)
  have s: "\<And>k. map_of ?s k =
     (if k = ''name'' then None
      else if map_of w k = Some (PBool False) \<and> k \<noteq> ''nullable'' then None
      else map_of w k)"
    using map_of_stored_column [OF distinct_add_missing_hints, of w] e by simp
  have r: "map_of (add_missing_hints ?s) k =
        (if k = ''name'' \<or>
            (map_of w k = Some (PBool False) \<and> k \<notin> set (''nullable'' # hint_names))
         then None else map_of w k)" for k
  proof (cases "k = ''name''")
    case True
    then show ?thesis
      using name_no_hint by (simp add: map_of_add_missing_hints [OF ds] s)
  next
    case False
    show ?thesis
    proof (cases "map_of w k = Some (PBool False) \<and> k \<noteq> ''nullable''")
      case True
      with False show ?thesis
        by (simp add: map_of_add_missing_hints [OF ds] s)
    next
      case no: False
      then have "map_of ?s k = map_of w k" using False by (simp add: s)
      moreover have "map_of w k = None \<Longrightarrow> k \<notin> set hint_names"
        using present [of k] by auto
      ultimately show ?thesis
        using False no by (auto simp: map_of_add_missing_hints [OF ds] split: option.splits)
    qed
  qed
  have nl: "map_of ?s ''nullable'' = map_of w ''nullable''"
    by (simp only: s) simp
  show ?thesis
  proof (intro exI conjI allI impI)
    show "map_of ?e = map_of w" by (rule e)
    show "clean_column (PDict ?e) = Inr (PDict ?s)" by (rule c)
    show "column_in (schema_after (remove_defaults d)) tn cn ?s"
      if "schema_ready d" "column_in d tn cn ?e" for d tn cn
      using that by (rule column_in_stored)
    show "map_of ?s ''nullable'' = map_of w ''nullable''" by (rule nl)
    show "map_of (add_missing_hints ?s) k =
        (if k = ''name'' \<or>
            (map_of w k = Some (PBool False) \<and> k \<notin> set (''nullable'' # hint_names))
         then None else map_of w k)" for k
      by (rule r)
  qed
qed

theorem expand_collapse_expand_witness:
  "working_column
     [(''name'', PStr ''id''), (''data_type'', PStr ''bigint''), (''nullable'', PBool False),
      (''partition'', PBool False), (''cluster'', PBool False), (''unique'', PBool True),
      (''sort'', PBool False), (''primary_key'', PBool False), (''foreign_key'', PBool False),
      (''x-indexed'', PBool False)] \<and>
   schema_ready
     [(''name'', PStr ''shop''),
      (''tables'', PDict [(''orders'', PDict [(''name'', PStr ''orders''),
          (''columns'', PDict [(''id'', PDict (add_missing_hints
     [(''name'', PStr ''id''), (''data_type'', PStr ''bigint''), (''nullable'', PBool False),
      (''partition'', PBool False), (''cluster'', PBool False), (''unique'', PBool True),
      (''sort'', PBool False), (''primary_key'', PBool False), (''foreign_key'', PBool False),
      (''x-indexed'', PBool False)]))])])])] \<and>
   column_in
     [(''name'', PStr ''shop''),
      (''tables'', PDict [(''orders'', PDict [(''name'', PStr ''orders''),
          (''columns'', PDict [(''id'', PDict (add_missing_hints
     [(''name'', PStr ''id''), (''data_type'', PStr ''bigint''), (''nullable'', PBool False),
      (''partition'', PBool False), (''cluster'', PBool False), (''unique'', PBool True),
      (''sort'', PBool False), (''primary_key'', PBool False), (''foreign_key'', PBool False),
      (''x-indexed'', PBool False)]))])])])]
     ''orders'' ''id''
     (add_missing_hints
     [(''name'', PStr ''id''), (''data_type'', PStr ''bigint''), (''nullable'', PBool False),
      (''partition'', PBool False), (''cluster'', PBool False), (''unique'', PBool True),
      (''sort'', PBool False), (''primary_key'', PBool False), (''foreign_key'', PBool False),
      (''x-indexed'', PBool False)]) \<and>
   clean_column (PDict (add_missing_hints
     [(''name'', PStr ''id''), (''data_type'', PStr ''bigint''), (''nullable'', PBool False),
      (''partition'', PBool False), (''cluster'', PBool False), (''unique'', PBool True),
      (''sort'', PBool False), (''primary_key'', PBool False), (''foreign_key'', PBool False),
      (''x-indexed'', PBool False)]))
     = Inr (PDict [(''unique'', PBool True), (''data_type'', PStr ''bigint''), (''nullable'', PBool False)]) \<and>
   column_in (schema_after (remove_defaults
     [(''name'', PStr ''shop''),
      (''tables'', PDict [(''orders'', PDict [(''name'', PStr ''orders''),
          (''columns'', PDict [(''id'', PDict (add_missing_hints
     [(''name'', PStr ''id''), (''data_type'', PStr ''bigint''), (''nullable'', PBool False),
      (''partition'', PBool False), (''cluster'', PBool False), (''unique'', PBool True),
      (''sort'', PBool False), (''primary_key'', PBool False), (''foreign_key'', PBool False),
      (''x-indexed'', PBool False)]))])])])])) ''orders'' ''id''
     [(''unique'', PBool True), (''data_type'', PStr ''bigint''), (''nullable'', PBool False)] \<and>
   map_of (add_missing_hints [(''unique'', PBool True), (''data_type'', PStr ''bigint''), (''nullable'', PBool False)])
     = [''data_type'' \<mapsto> PStr ''bigint'', ''nullable'' \<mapsto> PBool False,
        ''partition'' \<mapsto> PBool False, ''cluster'' \<mapsto> PBool False,
        ''unique'' \<mapsto> PBool True, ''sort'' \<mapsto> PBool False,
        ''primary_key'' \<mapsto> PBool False, ''foreign_key'' \<mapsto> PBool False]"
proof -
  let ?w = "[(''name'', PStr ''id''), (''data_type'', PStr ''bigint''), (''nullable'', PBool False),
      (''partition'', PBool False), (''cluster'', PBool False), (''unique'', PBool True),
      (''sort'', PBool False), (''primary_key'', PBool False), (''foreign_key'', PBool False),
      (''x-indexed'', PBool False)]"
  let ?s = "[(''unique'', PBool True), (''data_type'', PStr ''bigint''), (''nullable'', PBool False)]"
  let ?d = "[(''name'', PStr ''shop''),
      (''tables'', PDict [(''orders'', PDict [(''name'', PStr ''orders''),
          (''columns'', PDict [(''id'', PDict (add_missing_hints
     [(''name'', PStr ''id''), (''data_type'', PStr ''bigint''), (''nullable'', PBool False),
      (''partition'', PBool False), (''cluster'', PBool False), (''unique'', PBool True),
      (''sort'', PBool False), (''primary_key'', PBool False), (''foreign_key'', PBool False),
      (''x-indexed'', PBool False)]))])])])]"
  have w: "working_column ?w"
    by (simp add: working_column_def hint_names_def default_hints_def)
  have r: "schema_ready ?d"
    by (simp add: schema_ready_def table_ready_def column_ready_def add_missing_hints_def
        default_hints_def)
  have c: "column_in ?d ''orders'' ''id'' (add_missing_hints ?w)"
    by (simp add: column_in_def)
  have k: "clean_column (PDict (add_missing_hints ?w)) = Inr (PDict ?s)"
    by (simp add: clean_column_def dict_delitem_def remove_default_hint_def add_missing_hints_def
        default_hints_def)
  from expand_collapse_expand [OF w] obtain s where
    s: "clean_column (PDict (add_missing_hints ?w)) = Inr (PDict s)"
    and col: "\<forall>d tn cn. schema_ready d \<longrightarrow> column_in d tn cn (add_missing_hints ?w) \<longrightarrow>
        column_in (schema_after (remove_defaults d)) tn cn s"
    and again: "\<forall>k. map_of (add_missing_hints s) k =
        (if k = ''name'' \<or>
            (map_of ?w k = Some (PBool False) \<and> k \<notin> set (''nullable'' # hint_names))
         then None else map_of ?w k)"
    by blast
  from s k have e: "s = ?s" by simp
  from col r c e have after: "column_in (schema_after (remove_defaults ?d)) ''orders'' ''id'' ?s"
    by blast
  have m: "map_of (add_missing_hints ?s)
     = [''data_type'' \<mapsto> PStr ''bigint'', ''nullable'' \<mapsto> PBool False,
        ''partition'' \<mapsto> PBool False, ''cluster'' \<mapsto> PBool False,
        ''unique'' \<mapsto> PBool True, ''sort'' \<mapsto> PBool False,
        ''primary_key'' \<mapsto> PBool False, ''foreign_key'' \<mapsto> PBool False]"
  proof
    fix k
    from again e have "map_of (add_missing_hints ?s) k =
        (if k = ''name'' \<or>
            (map_of ?w k = Some (PBool False) \<and> k \<notin> set (''nullable'' # hint_names))
         then None else map_of ?w k)" by blast
    then show "map_of (add_missing_hints ?s) k
       = [''data_type'' \<mapsto> PStr ''bigint'', ''nullable'' \<mapsto> PBool False,
        ''partition'' \<mapsto> PBool False, ''cluster'' \<mapsto> PBool False,
        ''unique'' \<mapsto> PBool True, ''sort'' \<mapsto> PBool False,
        ''primary_key'' \<mapsto> PBool False, ''foreign_key'' \<mapsto> PBool False] k"
      by (simp add: hint_names_def default_hints_def)
  qed
  from w r c k after m show ?thesis by blast
qed

section \<open>Results about type coercion\<close>

lemma coerce_integer:
  assumes "to_type \<in> set [''wei'', ''bigint'']" and "from_type \<in> set [''decimal'', ''double'']"
  shows "coerce_type lib to_type from_type v =
     (case mod_1_nonzero lib v of
        Inl e \<Rightarrow> Inl e
      | Inr True \<Rightarrow> Inl (ValueError v)
      | Inr False \<Rightarrow> py_int v)"
  using assms by (auto simp: coerce_type_def coerce_to_integer_def or_else_def)

lemma integral_iff: "q = of_int \<lfloor>q\<rfloor> \<longleftrightarrow> of_int (py_trunc q) = q" for q :: rat
proof
  assume q: "q = of_int \<lfloor>q\<rfloor>"
  have "\<lceil>q\<rceil> = \<lfloor>q\<rfloor>" by (subst (1 2) q) simp
  with q show "of_int (py_trunc q) = q" by (simp add: py_trunc_def)
next
  assume t: "of_int (py_trunc q) = q"
  then have "\<lfloor>q\<rfloor> = py_trunc q" by (metis floor_of_int)
  with t show "q = of_int \<lfloor>q\<rfloor>" by simp
qed

lemma coerce_double_to_integer:
  assumes "to_type \<in> set [''wei'', ''bigint'']"
  shows "coerce_type lib to_type ''double'' (PFloat (Fin q)) =
     (if of_int (py_trunc q) = q then Inr (PInt (py_trunc q))
      else Inl (ValueError (PFloat (Fin q))))"
proof (cases "of_int (py_trunc q) = q")
  case True
  then have "q = of_int \<lfloor>q\<rfloor>" by (simp add: integral_iff)
  then have "mod_1_nonzero lib (PFloat (Fin q)) = Inr False" by (simp add: mod_1_nonzero_def)
  with True show ?thesis using assms by (simp add: coerce_integer py_int_def)
next
  case False
  then have "q \<noteq> of_int \<lfloor>q\<rfloor>" by (simp add: integral_iff)
  then have "mod_1_nonzero lib (PFloat (Fin q)) = Inr True" by (simp add: mod_1_nonzero_def)
  with False show ?thesis using assms by (simp add: coerce_integer)
qed

lemma coerce_decimal_to_integer:
  assumes "to_type \<in> set [''wei'', ''bigint'']"
    and "\<bar>py_trunc q\<bar> < 10 ^ decimal_prec lib"
  shows "coerce_type lib to_type ''decimal'' (PDecimal (Fin q)) =
     (if of_int (py_trunc q) = q then Inr (PInt (py_trunc q))
      else Inl (ValueError (PDecimal (Fin q))))"
proof (cases "of_int (py_trunc q) = q")
  case True
  then have "q - of_int (py_trunc q) = 0" by simp
  then have "mod_1_nonzero lib (PDecimal (Fin q)) = Inr False"
    using assms(2) by (simp add: mod_1_nonzero_def)
  with True show ?thesis using assms(1) by (simp add: coerce_integer py_int_def)
next
  case False
  then have "q - of_int (py_trunc q) \<noteq> 0" by simp
  then have "mod_1_nonzero lib (PDecimal (Fin q)) = Inr True"
    using assms(2) by (simp add: mod_1_nonzero_def)
  with False show ?thesis using assms(1) by (simp add: coerce_integer)
qed

text \<open>The two examples of the specification: \<^verbatim>\<open>2.0\<close> gives 2, \<^verbatim>\<open>2.5\<close> fails.\<close>

lemma coerce_examples:
  "coerce_type lib ''bigint'' ''double'' (PFloat (Fin 2)) = Inr (PInt 2) \<and>
   coerce_type lib ''bigint'' ''double'' (PFloat (Fin (5 / 2))) = Inl (ValueError (PFloat (Fin (5 / 2))))"
proof -
  have "\<lfloor>(5::rat) / 2\<rfloor> = 2" by (simp add: floor_eq_iff)
  then show ?thesis by (simp add: coerce_integer mod_1_nonzero_def py_int_def py_trunc_def)
qed

text \<open>
  C5. A finite double is coerced to its integer value when it is integral, and fails
  with \<^verbatim>\<open>ValueError\<close> otherwise (\<open>coerce_double_to_integer\<close>); so is a decimal whose
  integer part has no more digits than the precision of the decimal context
  (\<open>coerce_decimal_to_integer\<close>). But the integral decimal \<open>10 ^ prec\<close> is not coerced:
  \<^verbatim>\<open>value % 1\<close> raises \<^verbatim>\<open>decimal.InvalidOperation\<close>, for both integer target types,
  while a double as large as \<open>2 ^ 100\<close> is coerced.
\<close>

theorem coerce_large_integral_decimal_fails:
  "coerce_type lib ''bigint'' ''decimal'' (PDecimal (Fin (10 ^ decimal_prec lib))) = Inl InvalidOperation \<and>
   coerce_type lib ''wei'' ''decimal'' (PDecimal (Fin (10 ^ decimal_prec lib))) = Inl InvalidOperation \<and>
   coerce_type lib ''bigint'' ''double'' (PFloat (Fin (2 ^ 100))) = Inr (PInt (2 ^ 100))"
  by (simp add: coerce_integer mod_1_nonzero_def py_int_def py_trunc_def)

section \<open>Results about engine upgrades\<close>

lemma migrate_filters_empty [simp]: "migrate_filters grp (PList []) tables = (tables, None)"
  by (simp add: migrate_filters_def py_iter_def)

text \<open>The step from engine 2 to 3 leaves every key alone that it does not write, and
  when it succeeds the document carries engine version 3.\<close>

lemma upgrade_2_3_frame:
  assumes "upgrade_2_3 d = (d', r)"
    and "k \<notin> {''normalizers'', ''hints'', ''preferred_types'', ''settings'', ''tables'',
               ''excludes'', ''includes'', ''engine_version''}"
  shows "map_of d' k = map_of d k"
  using assms
  by (auto simp: upgrade_2_3_def dict_pop_def Let_def split_beta
      split: sum.splits option.splits pyval.splits prod.splits)

lemma upgrade_2_3_success:
  assumes "upgrade_2_3 d = (d', None)"
  shows "map_of d' ''engine_version'' = Some (PInt 3)"
  using assms
  by (auto simp: upgrade_2_3_def dict_pop_def Let_def split_beta
      split: sum.splits option.splits pyval.splits prod.splits)

lemma migration_chain_name:
  assumes "migration_chain d from_engine to_engine = (d', r)"
  shows "map_of d' ''name'' = map_of d ''name''"
proof -
  have *: "\<And>a b c. upgrade_2_3 a = (b, c) \<Longrightarrow> map_of b ''name'' = map_of a ''name''"
    by (rule upgrade_2_3_frame) simp_all
  show ?thesis
    using assms
    by (auto simp: migration_chain_def split: if_splits prod.splits option.splits dest!: *)
qed

lemma migration_chain_engine_version:
  assumes "migration_chain d from_engine to_engine = (d', Inr reached)"
  shows "(reached = from_engine \<and> d' = d) \<or> map_of d' ''engine_version'' = Some (PInt reached)"
  using assms
  by (auto simp: migration_chain_def split: if_splits prod.splits option.splits
      dest: upgrade_2_3_success)

section \<open>Results about the parents of legacy tables\<close>

lemma occurs_at_sep: "occurs_at ''__'' s i = sep_at s i"
proof (cases "Suc i < length s")
  case True
  then have "drop i s = s ! i # s ! Suc i # drop (Suc (Suc i)) s"
    by (simp add: Cons_nth_drop_Suc Suc_lessD)
  then show ?thesis using True by (auto simp: occurs_at_def sep_at_def)
next
  case False
  have "take 2 (drop i s) \<noteq> ''__''"
  proof
    assume "take 2 (drop i s) = ''__''"
    then have "length (take 2 (drop i s)) = 2" by simp
    with False show False by simp
  qed
  then show ?thesis using False by (simp add: occurs_at_def sep_at_def)
qed

lemma filter_rev_upt_Nil: "filter P (rev [0..<n]) = [] \<Longrightarrow> j < n \<Longrightarrow> \<not> P j"
  by (auto simp: filter_empty_conv)

lemma filter_rev_upt_Cons:
  "filter P (rev [0..<n]) = i # rest \<Longrightarrow> P i \<and> i < n \<and> (\<forall>j<n. P j \<longrightarrow> j \<le> i)"
proof (induction n)
  case 0
  then show ?case by simp
next
  case (Suc n)
  then show ?case by (auto split: if_splits simp: less_Suc_eq)
qed


lemma sep_at_bound: "sep_at s j \<Longrightarrow> j < Suc (length s) - length ''__''"
  by (auto simp: sep_at_def)

lemma str_rfind_pos:
  assumes "0 < str_rfind s ''__''"
  shows "\<exists>i. str_rfind s ''__'' = int i \<and> 0 < i \<and> last_sep s i"
proof -
  from assms obtain i rest where
    f: "filter (occurs_at ''__'' s) (rev [0..<Suc (length s) - length ''__'']) = i # rest"
    and i: "str_rfind s ''__'' = int i"
    by (auto simp: str_rfind_def split: list.splits)
  from filter_rev_upt_Cons [OF f] have "last_sep s i"
    unfolding last_sep_def occurs_at_sep using sep_at_bound by blast
  with i assms show ?thesis by auto
qed

lemma str_rfind_nonpos:
  assumes "\<not> 0 < str_rfind s ''__''" and "last_sep s i"
  shows "i = 0"
proof (cases "filter (occurs_at ''__'' s) (rev [0..<Suc (length s) - length ''__''])")
  case Nil
  from assms(2) have "sep_at s i" by (simp add: last_sep_def)
  with filter_rev_upt_Nil [OF Nil, of i] sep_at_bound [of s i] show ?thesis
    by (simp add: occurs_at_sep)
next
  case (Cons k rest)
  with assms(1) have k: "k = 0" by (simp add: str_rfind_def)
  from filter_rev_upt_Cons [OF Cons] have "last_sep s k"
    unfolding last_sep_def occurs_at_sep using sep_at_bound by blast
  with assms(2) have "i = k" by (auto simp: last_sep_def intro: antisym)
  with k show ?thesis by simp
qed

lemma last_sep_unique: "last_sep s i \<Longrightarrow> last_sep s j \<Longrightarrow> i = j"
  by (auto simp: last_sep_def intro: antisym)

lemma truncation_shorter: "truncation s p \<Longrightarrow> length p < length s \<and> p = take (length p) s"
proof (induction rule: truncation.induct)
  case (once s i)
  then show ?case by (auto simp: last_sep_def sep_at_def)
next
  case (again s i p)
  then have "i < length s" by (auto simp: last_sep_def sep_at_def)
  with again show ?case by (auto simp: min_def)
qed

lemma truncation_cases:
  assumes "last_sep s i" and "0 < i"
  shows "truncation s q \<longleftrightarrow> q = take i s \<or> truncation (take i s) q"
proof
  assume "truncation s q"
  then show "q = take i s \<or> truncation (take i s) q"
  proof (cases rule: truncation.cases)
    case (once j)
    with assms last_sep_unique show ?thesis by blast
  next
    case (again j)
    with assms last_sep_unique show ?thesis by blast
  qed
next
  assume "q = take i s \<or> truncation (take i s) q"
  with assms show "truncation s q" by (auto intro: truncation.intros)
qed

lemma py_slice_to_nat: "i \<le> length s \<Longrightarrow> py_slice_to s (int i) = take i s"
  by (simp add: py_slice_to_def slice_bound_def)

lemma find_parent_spec: "parent_spec old_tables name (find_parent old_tables name)"
proof (induction old_tables name rule: find_parent.induct)
  case (1 old_tables parent)
  show ?case
  proof (cases "0 < str_rfind parent ''__''")
    case False
    have "\<not> truncation parent q" for q
    proof
      assume "truncation parent q"
      then obtain i where "last_sep parent i" "0 < i"
        by (auto elim: truncation.cases)
      with str_rfind_nonpos [OF False] show False by auto
    qed
    moreover have "find_parent old_tables parent = None"
      using False by (subst find_parent.simps) (simp add: Let_def)
    ultimately show ?thesis by (simp add: parent_spec_def)
  next
    case True
    from str_rfind_pos [OF True] obtain i where
      idx: "str_rfind parent ''__'' = int i" and pos: "0 < i" and last: "last_sep parent i"
      by blast
    from last have le: "i \<le> length parent" by (simp add: last_sep_def sep_at_def)
    let ?p = "take i parent"
    have sl: "py_slice_to parent (int i) = ?p" using le by (rule py_slice_to_nat)
    have tr: "\<And>q. truncation parent q \<longleftrightarrow> q = ?p \<or> truncation ?p q"
      using last pos by (rule truncation_cases)
    show ?thesis
    proof (cases "map_of old_tables ?p = None")
      case None: True
      have eq: "find_parent old_tables parent = find_parent old_tables ?p"
        using True idx None sl by (subst find_parent.simps) (simp add: Let_def)
      have IH: "parent_spec old_tables ?p (find_parent old_tables ?p)"
        using "1.IH" [OF refl _ refl] True idx sl None by simp
      have len: "length ?p \<le> length parent" by simp
      show ?thesis
      proof (cases "find_parent old_tables ?p")
        case none: None
        with IH have "\<forall>q. truncation ?p q \<longrightarrow> map_of old_tables q = None"
          by (simp add: parent_spec_def)
        with None tr none eq show ?thesis by (auto simp: parent_spec_def)
      next
        case (Some p)
        with IH have a: "truncation ?p p" "map_of old_tables p \<noteq> None"
          "length p < length ?p" "p = take (length p) ?p"
          "\<forall>q. truncation ?p q \<and> map_of old_tables q \<noteq> None \<longrightarrow> length q \<le> length p"
          by (auto simp: parent_spec_def)
        have "p = take (length p) parent"
          using a(3,4) by (metis less_imp_le min.absorb1 take_take length_take min.cobounded2 order_trans)
        moreover have "length p < length parent" using a(3) len by simp
        moreover have "truncation parent p" using a(1) tr by simp
        moreover have "\<forall>q. truncation parent q \<and> map_of old_tables q \<noteq> None \<longrightarrow> length q \<le> length p"
          using a(5) tr None by auto
        ultimately show ?thesis using a(2) Some eq by (simp add: parent_spec_def)
      qed
    next
      case False
      have eq: "find_parent old_tables parent = Some ?p"
        using True idx False sl by (subst find_parent.simps) (auto simp: Let_def)
      have lt: "i < length parent" using last by (simp add: last_sep_def sep_at_def)
      have "length q \<le> length ?p" if "truncation parent q" for q
      proof -
        from that tr have "q = ?p \<or> truncation ?p q" by simp
        then show ?thesis
        proof
          assume "q = ?p" then show ?thesis by simp
        next
          assume "truncation ?p q"
          then have "length q < length ?p" using truncation_shorter by blast
          then show ?thesis by simp
        qed
      qed
      then have "\<forall>q. truncation parent q \<longrightarrow> length q \<le> length ?p" by blast
      moreover have "truncation parent ?p" using tr by simp
      ultimately show ?thesis using eq False lt by (simp add: parent_spec_def min_def)
    qed
  qed
qed

lemma truncation_nonempty: "truncation s p \<Longrightarrow> p \<noteq> []"
  by (induction rule: truncation.induct) (auto simp: last_sep_def sep_at_def)

lemma foldl_repackage_lookup:
  assumes "distinct (map fst xs)"
  shows "map_of (foldl (repackage_table old) acc xs) n =
     (case map_of xs n of
        None \<Rightarrow> map_of acc n
      | Some cols \<Rightarrow> Some (PDict (AList.update ''columns'' cols (new_table n (find_parent old n)))))"
  using assms
proof (induction xs arbitrary: acc)
  case Nil
  then show ?case by simp
next
  case (Cons x xs)
  obtain k v where x: "x = (k, v)" by (cases x)
  from Cons.prems x have notin: "k \<notin> fst ` set xs" and d: "distinct (map fst xs)" by auto
  from notin have none: "map_of xs k = None" by (simp add: map_of_eq_None_iff)
  show ?case
    using Cons.IH [OF d, of "repackage_table old acc x"] none
    by (auto simp: x repackage_table_def Let_def split: option.splits)
qed

lemma new_table_lookup:
  "map_of (new_table n r) k =
     (if k = ''name'' then Some (PStr n)
      else if k = ''columns'' then Some (PDict [])
      else if k = ''parent'' then (case r of None \<Rightarrow> None | Some p \<Rightarrow> if p \<noteq> [] then Some (PStr p) else None)
      else if k = ''write_disposition'' then
        (case r of None \<Rightarrow> Some (PStr ''append'') | Some p \<Rightarrow> if p \<noteq> [] then None else Some (PStr ''append''))
      else None)"
  by (simp add: new_table_def Let_def split: option.splits)

lemma migrate_filter_frame:
  assumes "migrate_filter grp tables f = Inr tables'"
    and "map_of tables n = Some (PDict t)"
  shows "\<exists>t'. map_of tables' n = Some (PDict t') \<and>
    (\<forall>k. k \<noteq> ''filters'' \<longrightarrow> map_of t' k = map_of t k)"
  using assms
  by (auto simp: migrate_filter_def Let_def dict_setdefault_def
      split: pyval.splits option.splits prod.splits if_splits)

lemma migrate_filters_loop_frame:
  assumes "migrate_filters_loop grp tables fs = (tables', r)"
    and "map_of tables n = Some (PDict t)"
  shows "\<exists>t'. map_of tables' n = Some (PDict t') \<and> same_but_filters t t'"
  using assms
proof (induction fs arbitrary: tables t)
  case Nil
  then show ?case by (simp add: same_but_filters_def)
next
  case (Cons f fs)
  show ?case
  proof (cases "migrate_filter grp tables f")
    case (Inl e)
    with Cons.prems show ?thesis by (simp add: same_but_filters_def)
  next
    case (Inr tables1)
    from migrate_filter_frame [OF Inr Cons.prems(2)] obtain t1 where
      t1: "map_of tables1 n = Some (PDict t1)" and s1: "same_but_filters t t1"
      by (auto simp: same_but_filters_def)
    from Cons.prems(1) Inr have "migrate_filters_loop grp tables1 fs = (tables', r)" by simp
    from Cons.IH [OF this t1] obtain t' where
      "map_of tables' n = Some (PDict t')" "same_but_filters t1 t'" by blast
    with s1 show ?thesis by (auto simp: same_but_filters_def)
  qed
qed

lemma migrate_filters_frame:
  assumes "migrate_filters grp filters tables = (tables', r)"
    and "map_of tables n = Some (PDict t)"
  shows "\<exists>t'. map_of tables' n = Some (PDict t') \<and> same_but_filters t t'"
proof (cases "py_iter filters")
  case (Inl e)
  with assms show ?thesis by (simp add: migrate_filters_def same_but_filters_def)
next
  case (Inr fs)
  with assms(1) have "migrate_filters_loop grp tables fs = (tables', r)"
    by (simp add: migrate_filters_def)
  then show ?thesis using assms(2) by (rule migrate_filters_loop_frame)
qed

lemma upgrade_2_3_returns:
  assumes "upgrade_2_3 schema_dict = (d, None)"
    and "map_of schema_dict ''tables'' = Some (PDict old_tables)"
  shows "\<exists>ex inc tables1 tables2.
     migrate_filters ''excludes'' ex (repackage_tables old_tables) = (tables1, None) \<and>
     migrate_filters ''includes'' inc tables1 = (tables2, None) \<and>
     map_of d ''tables'' = Some (PDict tables2)"
proof -
  let ?d6 = "set_tables [] (AList.delete ''tables''
        (AList.update ''settings''
           (PDict [(''default_hints'', fst (dict_pop_default ''hints'' (PDict [])
                       (AList.update ''normalizers'' default_normalizers schema_dict))),
                   (''preferred_types'', fst (dict_pop_default ''preferred_types'' (PDict [])
                       (snd (dict_pop_default ''hints'' (PDict [])
                          (AList.update ''normalizers'' default_normalizers schema_dict)))))])
           (snd (dict_pop_default ''preferred_types'' (PDict [])
              (snd (dict_pop_default ''hints'' (PDict [])
                 (AList.update ''normalizers'' default_normalizers schema_dict)))))))"
  let ?ex = "fst (dict_pop_default ''excludes'' (PList []) ?d6)"
  let ?d7 = "snd (dict_pop_default ''excludes'' (PList []) ?d6)"
  let ?m1 = "migrate_filters ''excludes'' ?ex (repackage_tables old_tables)"
  let ?inc = "fst (dict_pop_default ''includes'' (PList []) ?d7)"
  let ?d8 = "snd (dict_pop_default ''includes'' (PList []) ?d7)"
  let ?m2 = "migrate_filters ''includes'' ?inc (fst ?m1)"
  have eq: "upgrade_2_3 schema_dict =
     (case snd ?m1 of
        Some e \<Rightarrow> (set_tables (fst ?m1) ?d7, Some e)
      | None \<Rightarrow>
         (case snd ?m2 of
            Some e \<Rightarrow> (set_tables (fst ?m2) ?d8, Some e)
          | None \<Rightarrow> (AList.update ''engine_version'' (PInt 3) (set_tables (fst ?m2) ?d8), None)))"
    using assms(2)
    by (simp add: upgrade_2_3_def dict_pop_def Let_def split_beta split: option.splits)
  from assms(1) have s1: "snd ?m1 = None" and s2: "snd ?m2 = None"
    and d: "d = AList.update ''engine_version'' (PInt 3) (set_tables (fst ?m2) ?d8)"
    unfolding eq by (auto split: option.splits)
  have "?m1 = (fst ?m1, None)" using s1 by (simp add: prod_eq_iff)
  moreover have "?m2 = (fst ?m2, None)" using s2 by (simp add: prod_eq_iff)
  moreover have "map_of d ''tables'' = Some (PDict (fst ?m2))" by (simp add: d)
  ultimately show ?thesis by blast
qed

lemma upgrade_2_3_tables:
  assumes ok: "upgrade_2_3 schema_dict = (d, None)"
    and tabs: "map_of schema_dict ''tables'' = Some (PDict old_tables)"
    and n: "map_of (repackage_tables old_tables) n = Some (PDict t)"
  shows "\<exists>tables t'. map_of d ''tables'' = Some (PDict tables) \<and>
     map_of tables n = Some (PDict t') \<and> same_but_filters t t'"
proof -
  from upgrade_2_3_returns [OF ok tabs] obtain ex inc tables1 tables2 where
    m1: "migrate_filters ''excludes'' ex (repackage_tables old_tables) = (tables1, None)"
    and m2: "migrate_filters ''includes'' inc tables1 = (tables2, None)"
    and d: "map_of d ''tables'' = Some (PDict tables2)"
    by blast
  from migrate_filters_frame [OF m1 n] obtain t1 where
    t1: "map_of tables1 n = Some (PDict t1)" and s1: "same_but_filters t t1" by blast
  from migrate_filters_frame [OF m2 t1] obtain t2 where
    t2: "map_of tables2 n = Some (PDict t2)" and s2: "same_but_filters t1 t2" by blast
  from s1 s2 have "same_but_filters t t2" by (auto simp: same_but_filters_def)
  with d t2 show ?thesis by blast
qed

lemma upgrade_2_to_3_returns:
  "upgrade_engine_version schema_dict 2 3 = (d, None) \<Longrightarrow> upgrade_2_3 schema_dict = (d, None)"
  by (auto simp: upgrade_engine_version_def migration_chain_def dict_getitem_def
      split: prod.splits option.splits sum.splits if_splits)

text \<open>
  C2. Let \<open>name\<close> be a legacy table of a document that the step from engine 2 to 3
  upgrades. The table stored under \<open>name\<close> has as \<open>parent\<close> the longest truncation of
  \<open>name\<close> (at the last separator at a non-leading index, repeatedly) that names a legacy
  table, a strict prefix of \<open>name\<close>; when no truncation names a legacy table it has no
  \<open>parent\<close> and is a root table with write disposition \<open>append\<close>. For the legacy tables
  \<open>orders\<close> and \<open>orders__items\<close> the parent of \<open>orders__items\<close> is \<open>orders\<close>.
\<close>

theorem legacy_parent:
  assumes tabs: "map_of schema_dict ''tables'' = Some (PDict old_tables)"
    and dist: "distinct (map fst old_tables)"
    and nm: "map_of old_tables name = Some columns"
    and ok: "upgrade_engine_version schema_dict 2 3 = (d, None)"
  shows "\<exists>tables t r.
     map_of d ''tables'' = Some (PDict tables) \<and>
     map_of tables name = Some (PDict t) \<and>
     parent_spec old_tables name r \<and>
     map_of t ''parent'' = map_option PStr r \<and>
     (r = None \<longrightarrow> map_of t ''write_disposition'' = Some (PStr ''append''))"
proof -
  let ?r = "find_parent old_tables name"
  let ?t = "AList.update ''columns'' columns (new_table name ?r)"
  have spec: "parent_spec old_tables name ?r" by (rule find_parent_spec)
  have ne: "p \<noteq> []" if "?r = Some p" for p
    using spec that by (auto simp: parent_spec_def dest: truncation_nonempty)
  have par: "map_of ?t ''parent'' = map_option PStr ?r"
    using ne by (cases ?r) (simp_all add: new_table_lookup)
  have wd: "map_of ?t ''write_disposition'' = Some (PStr ''append'')" if "?r = None"
    using that by (simp add: new_table_lookup)
  have "map_of (repackage_tables old_tables) name = Some (PDict ?t)"
    using dist nm by (simp add: repackage_tables_def foldl_repackage_lookup)
  from upgrade_2_3_tables [OF upgrade_2_to_3_returns [OF ok] tabs this]
  obtain tables t' where
    d: "map_of d ''tables'' = Some (PDict tables)" and t': "map_of tables name = Some (PDict t')"
    and same: "same_but_filters ?t t'"
    by blast
  from same par have p': "map_of t' ''parent'' = map_option PStr ?r"
    by (simp add: same_but_filters_def)
  from same wd have w': "?r = None \<longrightarrow> map_of t' ''write_disposition'' = Some (PStr ''append'')"
    by (simp add: same_but_filters_def)
  show ?thesis
  proof (intro exI conjI)
    show "map_of d ''tables'' = Some (PDict tables)" by (rule d)
    show "map_of tables name = Some (PDict t')" by (rule t')
    show "parent_spec old_tables name ?r" by (rule spec)
    show "map_of t' ''parent'' = map_option PStr ?r" by (rule p')
    show "?r = None \<longrightarrow> map_of t' ''write_disposition'' = Some (PStr ''append'')" by (rule w')
  qed
qed

lemma sep_orders: "last_sep ''orders__items'' 6"
  unfolding last_sep_def sep_at_def
proof (intro conjI allI impI)
  fix j assume "Suc j < length ''orders__items'' \<and> ''orders__items'' ! j = CHR ''_'' \<and>
      ''orders__items'' ! Suc j = CHR ''_''"
  then show "j \<le> 6"
    by (cases "j \<le> 6") (auto simp: nth_Cons' not_le less_Suc_eq split: if_splits)
qed simp_all

theorem legacy_parent_witness:
  "map_of [(''name'', PStr ''shop''), (''engine_version'', PInt 2),
           (''tables'', PDict [(''orders'', PDict []), (''orders__items'', PDict [])])] ''tables''
     = Some (PDict [(''orders'', PDict []), (''orders__items'', PDict [])]) \<and>
   distinct (map fst [(''orders'', PDict []), (''orders__items'', PDict [])]) \<and>
   map_of [(''orders'', PDict []), (''orders__items'', PDict [])] ''orders__items''
     = Some (PDict []) \<and>
   snd (upgrade_engine_version
     [(''name'', PStr ''shop''), (''engine_version'', PInt 2),
      (''tables'', PDict [(''orders'', PDict []), (''orders__items'', PDict [])])] 2 3) = None \<and>
   truncation ''orders__items'' ''orders'' \<and>
   (\<exists>tables t.
      map_of (fst (upgrade_engine_version
        [(''name'', PStr ''shop''), (''engine_version'', PInt 2),
         (''tables'', PDict [(''orders'', PDict []), (''orders__items'', PDict [])])] 2 3))
        ''tables'' = Some (PDict tables) \<and>
      map_of tables ''orders__items'' = Some (PDict t) \<and>
      map_of t ''parent'' = Some (PStr ''orders''))"
proof -
  let ?old = "[(''orders'', PDict []), (''orders__items'', PDict [])]"
  let ?doc = "[(''name'', PStr ''shop''), (''engine_version'', PInt 2), (''tables'', PDict ?old)]"
  have h1: "map_of ?doc ''tables'' = Some (PDict ?old)" by simp
  have h2: "distinct (map fst ?old)" by simp
  have h3: "map_of ?old ''orders__items'' = Some (PDict [])" by simp
  have fp: "find_parent ?old ''orders__items'' = Some ''orders''"
    by (simp add: find_parent.simps str_rfind_def occurs_at_def py_slice_to_def slice_bound_def)
  have h4: "snd (upgrade_engine_version ?doc 2 3) = None"
    by (simp add: upgrade_engine_version_def migration_chain_def upgrade_2_3_def dict_pop_def
        Let_def split_beta dict_pop_default_fst)
  then have h4': "upgrade_engine_version ?doc 2 3 = (fst (upgrade_engine_version ?doc 2 3), None)"
    by (simp add: prod_eq_iff)
  have tr: "truncation ''orders__items'' ''orders''"
    using truncation.once [OF sep_orders] by simp
  from legacy_parent [OF h1 h2 h3 h4'] obtain tables t r where
    a: "map_of (fst (upgrade_engine_version ?doc 2 3)) ''tables'' = Some (PDict tables)"
    and b: "map_of tables ''orders__items'' = Some (PDict t)"
    and c: "parent_spec ?old ''orders__items'' r"
    and e: "map_of t ''parent'' = map_option PStr r"
    by blast
  have "r = Some ''orders''"
  proof (cases r)
    case None
    with c tr show ?thesis by (auto simp: parent_spec_def)
  next
    case (Some p)
    with c have "map_of ?old p \<noteq> None" and "length p < length ''orders__items''"
      by (auto simp: parent_spec_def)
    then have "p = ''orders''" by (auto split: if_splits)
    with Some show ?thesis by simp
  qed
  with e have "map_of t ''parent'' = Some (PStr ''orders'')" by simp
  with a b h1 h2 h3 h4 tr show ?thesis by blast
qed

section \<open>Results about legacy filters\<close>





























text \<open>
  C3. Upgrading a version-1 document (one that carries its legacy \<open>tables\<close> mapping)
  from engine 1 to engine 3 returns normally; the document then has engine version 3,
  the fixed, non-empty \<open>normalizers\<close> block, a \<open>settings\<close> block with exactly the keys
  \<open>default_hints\<close> and \<open>preferred_types\<close> (the legacy \<open>hints\<close> and \<open>preferred_types\<close>, or
  empty mappings), and no top-level \<open>hints\<close>, \<open>preferred_types\<close>, \<open>includes\<close> or
  \<open>excludes\<close>.
\<close>

theorem upgrade_1_to_3_shape:
  assumes "map_of schema_dict ''tables'' = Some (PDict old_tables)"
  shows "\<exists>d normalizers.
      upgrade_engine_version schema_dict 1 3 = (d, None) \<and>
      map_of d ''engine_version'' = Some (PInt 3) \<and>
      map_of d ''normalizers'' = Some (PDict normalizers) \<and> normalizers \<noteq> [] \<and>
      map_of d ''settings'' =
        Some (PDict
          [(''default_hints'',
              case map_of schema_dict ''hints'' of None \<Rightarrow> PDict [] | Some h \<Rightarrow> h),
           (''preferred_types'',
              case map_of schema_dict ''preferred_types'' of None \<Rightarrow> PDict [] | Some p \<Rightarrow> p)]) \<and>
      map_of d ''hints'' = None \<and> map_of d ''preferred_types'' = None \<and>
      map_of d ''includes'' = None \<and> map_of d ''excludes'' = None"
  using assms
  by (simp add: upgrade_engine_version_def migration_chain_def upgrade_2_3_def dict_pop_def
      Let_def split_beta dict_pop_default_fst default_normalizers_def)

theorem upgrade_1_to_3_shape_witness:
  "map_of [(''name'', PStr ''shop''), (''engine_version'', PInt 1),
           (''hints'', PDict [(''not_null'', PList [PStr ''^id$''])]),
           (''tables'', PDict [(''orders'', PDict [])])] ''tables''
     = Some (PDict [(''orders'', PDict [])]) \<and>
   (\<exists>d normalizers.
      upgrade_engine_version
        [(''name'', PStr ''shop''), (''engine_version'', PInt 1),
         (''hints'', PDict [(''not_null'', PList [PStr ''^id$''])]),
         (''tables'', PDict [(''orders'', PDict [])])] 1 3 = (d, None) \<and>
      map_of d ''engine_version'' = Some (PInt 3) \<and>
      map_of d ''normalizers'' = Some (PDict normalizers) \<and> normalizers \<noteq> [] \<and>
      map_of d ''settings'' =
        Some (PDict [(''default_hints'', PDict [(''not_null'', PList [PStr ''^id$''])]),
                     (''preferred_types'', PDict [])]) \<and>
      map_of d ''hints'' = None \<and> map_of d ''preferred_types'' = None \<and>
      map_of d ''includes'' = None \<and> map_of d ''excludes'' = None)"
  using upgrade_1_to_3_shape
    [of "[(''name'', PStr ''shop''), (''engine_version'', PInt 1),
          (''hints'', PDict [(''not_null'', PList [PStr ''^id$''])]),
          (''tables'', PDict [(''orders'', PDict [])])]" "[(''orders'', PDict [])]"]
  by simp

text \<open>
  C9. Whenever the requested versions differ and the chain of migration steps ends at
  a version other than the target, the call raises the no-upgrade-path exception with
  the schema name, the engine version of the document, the version reached and the
  target; the document is one that carries a name and an engine version. And a call
  that returns has reached the target: the document it returns carries the target as
  its engine version.
\<close>

theorem upgrade_mismatch_raises:
  assumes "from_engine \<noteq> to_engine"
  shows "(\<forall>d reached name engine_version.
            migration_chain schema_dict from_engine to_engine = (d, Inr reached) \<longrightarrow>
            reached \<noteq> to_engine \<longrightarrow>
            map_of schema_dict ''name'' = Some name \<longrightarrow>
            map_of schema_dict ''engine_version'' = Some engine_version \<longrightarrow>
            (\<exists>v. map_of d ''engine_version'' = Some v \<and>
              upgrade_engine_version schema_dict from_engine to_engine =
                (d, Some (SchemaEngineNoUpgradePathException name v reached to_engine)))) \<and>
         (\<forall>d. upgrade_engine_version schema_dict from_engine to_engine = (d, None) \<longrightarrow>
            migration_chain schema_dict from_engine to_engine = (d, Inr to_engine) \<and>
            map_of d ''engine_version'' = Some (PInt to_engine))"
proof (intro conjI allI impI)
  fix d reached name engine_version
  assume chain: "migration_chain schema_dict from_engine to_engine = (d, Inr reached)"
    and ne: "reached \<noteq> to_engine"
    and n: "map_of schema_dict ''name'' = Some name"
    and ev: "map_of schema_dict ''engine_version'' = Some engine_version"
  have n': "map_of d ''name'' = Some name"
    using migration_chain_name [OF chain] n by simp
  obtain v where v: "map_of d ''engine_version'' = Some v"
    using migration_chain_engine_version [OF chain] ev by auto
  show "\<exists>v. map_of d ''engine_version'' = Some v \<and>
      upgrade_engine_version schema_dict from_engine to_engine =
        (d, Some (SchemaEngineNoUpgradePathException name v reached to_engine))"
    using assms chain ne n' v
    by (simp add: upgrade_engine_version_def dict_getitem_def)
next
  fix d
  assume ret: "upgrade_engine_version schema_dict from_engine to_engine = (d, None)"
  then show chain: "migration_chain schema_dict from_engine to_engine = (d, Inr to_engine)"
    using assms
    by (auto simp: upgrade_engine_version_def dict_getitem_def
        split: prod.splits sum.splits if_splits)
  show "map_of d ''engine_version'' = Some (PInt to_engine)"
    using migration_chain_engine_version [OF chain] assms by auto
qed

theorem upgrade_mismatch_raises_witness:
  "(1::int) \<noteq> 5 \<and>
   snd (migration_chain
          [(''name'', PStr ''shop''), (''engine_version'', PInt 1), (''tables'', PDict [])] 1 5)
     = Inr 3 \<and>
   (3::int) \<noteq> 5 \<and>
   upgrade_engine_version
     [(''name'', PStr ''shop''), (''engine_version'', PInt 1), (''tables'', PDict [])] 1 5 =
     (fst (migration_chain
             [(''name'', PStr ''shop''), (''engine_version'', PInt 1), (''tables'', PDict [])] 1 5),
      Some (SchemaEngineNoUpgradePathException (PStr ''shop'') (PInt 3) 3 5))"
proof -
  let ?d = "[(''name'', PStr ''shop''), (''engine_version'', PInt 1), (''tables'', PDict [])]"
  have chain: "snd (migration_chain ?d 1 5) = Inr 3"
    by (simp add: migration_chain_def upgrade_2_3_def dict_pop_def Let_def split_beta
        dict_pop_default_fst)
  then have chain': "migration_chain ?d 1 5 = (fst (migration_chain ?d 1 5), Inr 3)"
    by (metis prod.collapse)
  have ev: "map_of (fst (migration_chain ?d 1 5)) ''engine_version'' = Some (PInt 3)"
    by (simp add: migration_chain_def upgrade_2_3_def dict_pop_def Let_def split_beta
        dict_pop_default_fst)
  have ne: "(1::int) \<noteq> 5" by simp
  from upgrade_mismatch_raises [OF ne, of ?d] chain' ev
  have "upgrade_engine_version ?d 1 5 =
     (fst (migration_chain ?d 1 5),
      Some (SchemaEngineNoUpgradePathException (PStr ''shop'') (PInt 3) 3 5))"
    by fastforce
  with chain show ?thesis by simp
qed

text \<open>
  C10. A downgrade request on a document that carries \<open>name\<close> and \<open>engine_version\<close>
  raises the no-upgrade-path exception and leaves the document as it was: no step of
  the chain runs.
\<close>

theorem downgrade_raises_unchanged:
  assumes "map_of schema_dict ''name'' = Some name"
    and "map_of schema_dict ''engine_version'' = Some engine_version"
    and "to_engine < from_engine"
  shows "upgrade_engine_version schema_dict from_engine to_engine =
    (schema_dict,
     Some (SchemaEngineNoUpgradePathException name engine_version from_engine to_engine))"
  using assms
  by (auto simp: upgrade_engine_version_def migration_chain_def dict_getitem_def)

theorem downgrade_raises_unchanged_witness:
  "map_of [(''name'', PStr ''shop''), (''engine_version'', PInt 3), (''tables'', PDict [])]
     ''name'' = Some (PStr ''shop'') \<and>
   map_of [(''name'', PStr ''shop''), (''engine_version'', PInt 3), (''tables'', PDict [])]
     ''engine_version'' = Some (PInt 3) \<and>
   (1::int) < 3 \<and>
   upgrade_engine_version
     [(''name'', PStr ''shop''), (''engine_version'', PInt 3), (''tables'', PDict [])] 3 1 =
     ([(''name'', PStr ''shop''), (''engine_version'', PInt 3), (''tables'', PDict [])],
      Some (SchemaEngineNoUpgradePathException (PStr ''shop'') (PInt 3) 3 1))"
  using downgrade_raises_unchanged
    [of "[(''name'', PStr ''shop''), (''engine_version'', PInt 3), (''tables'', PDict [])]"
        "PStr ''shop''" "PInt 3" 1 3]
  by simp

end

